theory Spec2Isabelle
  imports Complex_Main "HOL-Library.AList"
begin

section \<open>Page configuration (config/api.ts)\<close>

text \<open>
  JavaScript strings are modelled as Isabelle strings. A character stands for one code unit
  below 256; the development covers the strings built from such code units.
\<close>

text \<open>
  The types \<^verbatim>\<open>SiteMeta\<close>, \<^verbatim>\<open>PageConfig\<close> and \<^verbatim>\<open>GeneratedConfig\<close> of config/types.ts.
  The field \<^verbatim>\<open>id\<close> is written \<open>id'\<close>.
\<close>

record SiteMeta =
  title :: string
  description :: string
  icon :: string

record PageConfig =
  id' :: string
  name :: "string option"
  siteMeta :: SiteMeta

text \<open>
  The generated configuration as \<^verbatim>\<open>env.config\<close> holds it after schema validation
  (config/env.ts), and the runtime variable \<^verbatim>\<open>NODE_ENV\<close>.
\<close>

record Env =
  env_baseUrl :: string
  env_defaultPageId :: string
  env_pages :: "PageConfig list"
  env_isPlaceholder :: bool
  env_isEditThisPage :: bool
  env_isShowStarButton :: bool
  env_NODE_ENV :: string

record Config =
  baseUrl :: string
  defaultPageId :: string
  pages :: "PageConfig list"
  currentPageId :: string
  htmlEndpoint :: string
  apiEndpoint :: string
  cfg_siteMeta :: SiteMeta
  isPlaceholder :: bool
  isEditThisPage :: bool
  isShowStarButton :: bool

datatype error =
    Error string
  | ConfigError string
  | ApiDataError string
  | SyntaxError string
  | TypeError string
  | NonError

text \<open>
  \<^verbatim>\<open>getConfig\<close>: throws when a required variable is missing (an empty string and an
  empty page list are falsy), otherwise builds the configuration of the default page.
  \<^verbatim>\<open>pages.find(...) || pages[0]\<close> is \<^const>\<open>find\<close> with the head of the list as the
  fallback; the list is not empty there. \<^verbatim>\<open>isShowStarButton || true\<close> is written as the
  source has it. The \<^verbatim>\<open>console.log\<close> of the development mode has no effect on the result.
\<close>

definition getConfig :: "Env \<Rightarrow> error + Config" where
  "getConfig env =
     (if env_baseUrl env = [] \<or> env_defaultPageId env = [] \<or> env_pages env = []
      then Inl (Error ''Missing required configuration variables'')
      else
        let defaultPage =
              (case find (\<lambda>page. id' page = env_defaultPageId env) (env_pages env) of
                 Some page \<Rightarrow> page
               | None \<Rightarrow> hd (env_pages env))
        in Inr \<lparr> baseUrl = env_baseUrl env,
                 defaultPageId = env_defaultPageId env,
                 pages = env_pages env,
                 currentPageId = env_defaultPageId env,
                 htmlEndpoint = env_baseUrl env @ ''/status/'' @ env_defaultPageId env,
                 apiEndpoint =
                   env_baseUrl env @ ''/api/status-page/heartbeat/'' @ env_defaultPageId env,
                 cfg_siteMeta = siteMeta defaultPage,
                 isPlaceholder = False,
                 isEditThisPage = (env_isEditThisPage env \<or> False),
                 isShowStarButton = (env_isShowStarButton env \<or> True) \<rparr>)"

text \<open>
  \<^verbatim>\<open>getConfigForPage\<close> as a function of the value of \<^verbatim>\<open>apiConfig\<close>: the copy
  \<^verbatim>\<open>{ ...apiConfig }\<close> has the fields of \<^verbatim>\<open>apiConfig\<close>, and four of them are
  overwritten when the page is found.
\<close>

definition getConfigForPage :: "Config \<Rightarrow> string \<Rightarrow> Config" where
  "getConfigForPage apiConfig pageId =
     (let config = apiConfig in
      case find (\<lambda>p. id' p = pageId) (pages config) of
        Some page \<Rightarrow>
          config \<lparr> currentPageId := pageId,
                   htmlEndpoint := baseUrl config @ ''/status/'' @ pageId,
                   apiEndpoint := baseUrl config @ ''/api/status-page/heartbeat/'' @ pageId,
                   cfg_siteMeta := siteMeta page \<rparr>
      | None \<Rightarrow> config)"

text \<open>
  The same function over an explicit store of objects, to follow the copy and the field
  writes of the source: an address is an index into the store, \<^verbatim>\<open>{ ...apiConfig }\<close>
  allocates a new object at the end of the store with the fields of the object at
  \<^verbatim>\<open>apiConfig\<close>, and each assignment \<^verbatim>\<open>config.f = v\<close> writes the object at the new
  address. The result is the address of the copy and the store after the call.
\<close>

type_synonym store = "Config list"

definition getConfigForPage_store :: "store \<Rightarrow> nat \<Rightarrow> string \<Rightarrow> nat \<times> store" where
  "getConfigForPage_store st apiConfig pageId =
     (let config = length st;
          st1 = st @ [st ! apiConfig]
      in case find (\<lambda>p. id' p = pageId) (pages (st1 ! config)) of
           Some page \<Rightarrow>
             (let st2 = st1[config := (st1 ! config)\<lparr>currentPageId := pageId\<rparr>];
                  st3 = st2[config := (st2 ! config)
                          \<lparr>htmlEndpoint := baseUrl (st2 ! config) @ ''/status/'' @ pageId\<rparr>];
                  st4 = st3[config := (st3 ! config)
                          \<lparr>apiEndpoint :=
                             baseUrl (st3 ! config) @ ''/api/status-page/heartbeat/'' @ pageId\<rparr>];
                  st5 = st4[config := (st4 ! config)\<lparr>cfg_siteMeta := siteMeta page\<rparr>]
              in (config, st5))
         | None \<Rightarrow> (config, st1))"


section \<open>Maintenance status (services/config.server.ts)\<close>

text \<open>
  Modelled from the spec: the types \<^verbatim>\<open>Maintenance\<close> and its timeslots are declared in
  types/config, which is not among the sources. A maintenance item has an id, a title, a
  description, an optional list of timeslots and an optional status set upstream; the
  extension part of the record stands for every other field of the object. A timeslot
  has a start date and an end date, both date strings.
\<close>

record Timeslot =
  startDate :: string
  endDate :: string

record Maintenance =
  m_id :: int
  m_title :: string
  m_description :: string
  timeslotList :: "Timeslot list option"
  status :: "string option"

text \<open>
  A time value is a number of milliseconds, or \<open>None\<close> for \<^verbatim>\<open>NaN\<close>, which
  \<^verbatim>\<open>getTime()\<close> returns for a date string that does not parse. Every comparison with
  \<^verbatim>\<open>NaN\<close> is false.
\<close>

definition js_ge :: "int \<Rightarrow> int option \<Rightarrow> bool" where
  "js_ge now t = (case t of None \<Rightarrow> False | Some t' \<Rightarrow> now \<ge> t')"

definition js_lt :: "int \<Rightarrow> int option \<Rightarrow> bool" where
  "js_lt now t = (case t of None \<Rightarrow> False | Some t' \<Rightarrow> now < t')"

text \<open>
  The callback of \<^verbatim>\<open>maintenanceList.map\<close> in \<^verbatim>\<open>processMaintenanceData\<close>. Its parameters
  are the helper \<^verbatim>\<open>ensureUTCTimezone\<close> of services/utils/common (not among the sources),
  the built-in \<^verbatim>\<open>new Date(s).getTime()\<close> as a function of the date string, and the value
  \<^verbatim>\<open>Date.now()\<close> returns in this call. A list that is absent or empty is falsy in the
  two tests of the source. The slots of the result are new objects with the two dates
  only.
\<close>

definition processMaintenance ::
  "(string \<Rightarrow> string) \<Rightarrow> (string \<Rightarrow> int option) \<Rightarrow> int \<Rightarrow>
   'a Maintenance_scheme \<Rightarrow> 'a Maintenance_scheme" where
  "processMaintenance ensureUTCTimezone getTime now maintenance =
     (let processed = maintenance;
          processed =
            (case timeslotList maintenance of
               Some (s # ss) \<Rightarrow>
                 processed \<lparr> timeslotList :=
                   Some (map (\<lambda>slot. \<lparr> startDate = ensureUTCTimezone (startDate slot),
                                        endDate = ensureUTCTimezone (endDate slot) \<rparr>) (s # ss)) \<rparr>
             | _ \<Rightarrow> processed)
      in case timeslotList processed of
           Some (slot0 # rest) \<Rightarrow>
             (let startTime = getTime (startDate slot0);
                  endTime = getTime (endDate slot0)
              in if js_ge now startTime \<and> js_lt now endTime
                 then processed \<lparr> status := Some ''under-maintenance'' \<rparr>
                 else if js_lt now startTime
                 then processed \<lparr> status := Some ''scheduled'' \<rparr>
                 else if js_ge now endTime
                 then processed \<lparr> status := Some ''ended'' \<rparr>
                 else processed)
         | _ \<Rightarrow> processed)"

text \<open>
  \<^verbatim>\<open>processMaintenanceData\<close>: the callback reads the clock once for each element, so
  the clock is a function from the index of the element to the time read there.
\<close>

definition processMaintenanceData ::
  "(string \<Rightarrow> string) \<Rightarrow> (string \<Rightarrow> int option) \<Rightarrow> (nat \<Rightarrow> int) \<Rightarrow>
   'a Maintenance_scheme list \<Rightarrow> 'a Maintenance_scheme list" where
  "processMaintenanceData ensureUTCTimezone getTime clock maintenanceList =
     map (\<lambda>(i, maintenance). processMaintenance ensureUTCTimezone getTime (clock i) maintenance)
       (enumerate 0 maintenanceList)"

section \<open>Preload data (services/config.server.ts)\<close>

text \<open>
  A value parsed from JSON. An object is the list of its properties in insertion order,
  read with \<^const>\<open>map_of\<close>. \<open>None\<close> of type \<open>json option\<close> is \<^verbatim>\<open>undefined\<close>, the
  value of a property that is absent.
\<close>

datatype json =
    JNull
  | JBool bool
  | JNum rat
  | JStr string
  | JArr "json list"
  | JObj "(string \<times> json) list"

fun truthy :: "json \<Rightarrow> bool" where
  "truthy JNull = False"
| "truthy (JBool b) = b"
| "truthy (JNum n) = (n \<noteq> 0)"
| "truthy (JStr s) = (s \<noteq> [])"
| "truthy (JArr xs) = True"
| "truthy (JObj fs) = True"

text \<open>The decimal digits of a number, as a template literal prints it.\<close>

fun string_of_nat :: "nat \<Rightarrow> string" where
  "string_of_nat n =
     (if n < 10 then [''0123456789'' ! n]
      else string_of_nat (n div 10) @ [''0123456789'' ! (n mod 10)])"

declare string_of_nat.simps [simp del]

text \<open>
  The own properties of a value, as the spread \<^verbatim>\<open>{ ...v }\<close> copies them: those of an
  object, the elements of an array and the characters of a string under their indices,
  none for the other values.
\<close>

fun ownProperties :: "json \<Rightarrow> (string \<times> json) list" where
  "ownProperties (JObj fs) = fs"
| "ownProperties (JArr xs) = zip (map string_of_nat [0..<length xs]) xs"
| "ownProperties (JStr s) = zip (map string_of_nat [0..<length s]) (map (\<lambda>c. JStr [c]) s)"
| "ownProperties v = []"

text \<open>
  Modelled from the spec: the type \<^verbatim>\<open>PreloadData\<close> that \<^verbatim>\<open>extractPreloadData\<close> returns is
  declared outside the sources. The source tests \<^verbatim>\<open>config\<close> and \<^verbatim>\<open>maintenanceList\<close> at run
  time, so \<^verbatim>\<open>config\<close> is any JSON value or absent, and \<^verbatim>\<open>maintenanceList\<close> is either an
  array, whose elements are maintenance items as the signature of
  \<^verbatim>\<open>processMaintenanceData\<close> has them, or a value for which \<^verbatim>\<open>Array.isArray\<close> is false
  (any other JSON value, or absent). The incident, when present, carries the two dates
  the source normalises.
\<close>

record Incident =
  createdDate :: string
  lastUpdatedDate :: string

datatype 'm maintenanceListValue =
    IsArray "'m Maintenance_scheme list"
  | NotArray "json option"

record ('m, 'i) PreloadData =
  pd_config :: "json option"
  pd_incident :: "'i Incident_scheme option"
  pd_maintenanceList :: "'m maintenanceListValue"

text \<open>\<^verbatim>\<open>error instanceof Error ? error.message : ...\<close>: the message of a thrown value.\<close>

fun message :: "error \<Rightarrow> string option" where
  "message (Error m) = Some m"
| "message (ConfigError m) = Some m"
| "message (ApiDataError m) = Some m"
| "message (SyntaxError m) = Some m"
| "message (TypeError m) = Some m"
| "message NonError = None"

record 'm MaintenanceData =
  success :: bool
  md_maintenanceList :: "'m Maintenance_scheme list"
  md_error :: "string option"

text \<open>
  \<^verbatim>\<open>getMaintenanceData\<close>. The parameter \<open>fetched\<close> is the outcome of the call
  \<^verbatim>\<open>await getPreloadData()\<close> made here: the error thrown, or the value returned. The first
  definition is the body of \<^verbatim>\<open>try\<close>, the second adds the \<^verbatim>\<open>catch\<close>; \<^verbatim>\<open>logApiError\<close> only
  writes to the log.
\<close>

definition getMaintenanceData_try ::
  "(string \<Rightarrow> string) \<Rightarrow> (string \<Rightarrow> int option) \<Rightarrow> (nat \<Rightarrow> int) \<Rightarrow>
   error + ('m, 'i) PreloadData \<Rightarrow> error + 'm MaintenanceData" where
  "getMaintenanceData_try ensureUTCTimezone getTime clock fetched =
     (case fetched of
        Inl e \<Rightarrow> Inl e
      | Inr preloadData \<Rightarrow>
          (case pd_maintenanceList preloadData of
             NotArray v \<Rightarrow> Inl (ApiDataError ''Maintenance list data must be an array'')
           | IsArray maintenanceList \<Rightarrow>
               Inr \<lparr> success = True,
                     md_maintenanceList =
                       processMaintenanceData ensureUTCTimezone getTime clock maintenanceList,
                     md_error = None \<rparr>))"

definition getMaintenanceData ::
  "(string \<Rightarrow> string) \<Rightarrow> (string \<Rightarrow> int option) \<Rightarrow> (nat \<Rightarrow> int) \<Rightarrow>
   error + ('m, 'i) PreloadData \<Rightarrow> 'm MaintenanceData" where
  "getMaintenanceData ensureUTCTimezone getTime clock fetched =
     (case getMaintenanceData_try ensureUTCTimezone getTime clock fetched of
        Inr result \<Rightarrow> result
      | Inl e \<Rightarrow>
          \<lparr> success = False,
            md_maintenanceList = [],
            md_error = Some (case message e of Some m \<Rightarrow> m
                             | None \<Rightarrow> ''Unknown error occurred'') \<rparr>)"

text \<open>
  The operator \<^verbatim>\<open>in\<close> for the property names tested by \<^verbatim>\<open>getGlobalConfig\<close>: none of them
  is inherited from a prototype, is an array index or is \<^verbatim>\<open>length\<close>. On a value that is
  not an object the operator throws a \<^verbatim>\<open>TypeError\<close>; the text of its message depends on
  the engine and is only written to the log.
\<close>

fun js_in :: "string \<Rightarrow> json \<Rightarrow> error + bool" where
  "js_in field (JObj fs) = Inr (field \<in> fst ` set fs)"
| "js_in field (JArr xs) = Inr False"
| "js_in field v = Inl (TypeError ''Cannot use the in operator on a primitive value'')"

text \<open>The loop over \<^verbatim>\<open>requiredFields\<close>: the first missing field throws.\<close>

fun checkRequiredFields :: "string list \<Rightarrow> json \<Rightarrow> error + unit" where
  "checkRequiredFields [] config = Inr ()"
| "checkRequiredFields (field # others) config =
     (case js_in field config of
        Inl e \<Rightarrow> Inl e
      | Inr present \<Rightarrow>
          if \<not> present
          then Inl (ConfigError (''Configuration is missing required field: '' @ field))
          else checkRequiredFields others config)"

definition requiredFields :: "string list" where
  "requiredFields = [''slug'', ''title'', ''description'', ''icon'', ''theme'']"

text \<open>Reading a property (not an index, not inherited) of a value that is not nullish.\<close>

fun getProperty :: "json \<Rightarrow> string \<Rightarrow> json option" where
  "getProperty (JObj fs) k = map_of fs k"
| "getProperty v k = None"

record ('m, 'i) GlobalConfig =
  gc_config :: json
  gc_incident :: "'i Incident_scheme option"
  gc_maintenanceList :: "'m Maintenance_scheme list"

text \<open>
  The value returned by the \<^verbatim>\<open>catch\<close> of \<^verbatim>\<open>getGlobalConfig\<close>; it has no incident.
\<close>

definition placeholderConfig :: "('m, 'i) GlobalConfig" where
  "placeholderConfig =
     \<lparr> gc_config = JObj
         [(''slug'', JStr []),
          (''title'', JStr []),
          (''description'', JStr []),
          (''icon'', JStr ''/icon.svg''),
          (''theme'', JStr ''system''),
          (''published'', JBool True),
          (''showTags'', JBool True),
          (''customCSS'', JStr []),
          (''footerText'', JStr []),
          (''showPoweredBy'', JBool False),
          (''googleAnalyticsId'', JNull),
          (''showCertificateExpiry'', JBool False)],
       gc_incident = None,
       gc_maintenanceList = [] \<rparr>"

text \<open>
  \<^verbatim>\<open>getGlobalConfig\<close>. \<open>fetched\<close> is the outcome of its own call of \<^verbatim>\<open>getPreloadData\<close>,
  \<open>fetched'\<close> the outcome of the call that \<^verbatim>\<open>getMaintenanceData\<close> makes afterwards. The
  object \<^verbatim>\<open>{ ...preloadData.config, theme }\<close> keeps the properties of the configuration in
  their order, with \<^verbatim>\<open>theme\<close> overwritten. An array is truthy, so
  \<^verbatim>\<open>maintenanceData.maintenanceList || []\<close> is the list itself. The memoisation by
  \<^verbatim>\<open>cache\<close> is not modelled. The first definition is the body of \<^verbatim>\<open>try\<close>, the second
  adds the \<^verbatim>\<open>catch\<close>, which returns the placeholder for every thrown value.
\<close>

definition getGlobalConfig_try ::
  "(string \<Rightarrow> string) \<Rightarrow> (string \<Rightarrow> int option) \<Rightarrow> (nat \<Rightarrow> int) \<Rightarrow>
   error + ('m, 'i) PreloadData \<Rightarrow> error + ('m, 'i) PreloadData \<Rightarrow>
   error + ('m, 'i) GlobalConfig" where
  "getGlobalConfig_try ensureUTCTimezone getTime clock fetched fetched' =
     (case fetched of
        Inl e \<Rightarrow> Inl e
      | Inr preloadData \<Rightarrow>
          (case pd_config preloadData of
             None \<Rightarrow> Inl (ConfigError ''Configuration data is missing'')
           | Some config \<Rightarrow>
               if \<not> truthy config then Inl (ConfigError ''Configuration data is missing'')
               else
                 (case checkRequiredFields requiredFields config of
                    Inl e \<Rightarrow> Inl e
                  | Inr u \<Rightarrow>
                      (case getProperty config ''theme'' of
                         Some (JStr rawTheme) \<Rightarrow>
                           (let theme = (if rawTheme = ''dark'' then ''dark''
                                         else if rawTheme = ''light'' then ''light''
                                         else ''system'');
                                maintenanceData =
                                  getMaintenanceData ensureUTCTimezone getTime clock fetched';
                                maintenanceList = md_maintenanceList maintenanceData
                            in Inr \<lparr> gc_config =
                                       JObj (AList.update ''theme'' (JStr theme)
                                               (ownProperties config)),
                                     gc_incident =
                                       map_option
                                         (\<lambda>incident. incident
                                            \<lparr> createdDate :=
                                                ensureUTCTimezone (createdDate incident),
                                              lastUpdatedDate :=
                                                ensureUTCTimezone (lastUpdatedDate incident) \<rparr>)
                                         (pd_incident preloadData),
                                     gc_maintenanceList = maintenanceList \<rparr>)
                       | other \<Rightarrow> Inl (ConfigError ''Theme must be a string'')))))"

definition getGlobalConfig ::
  "(string \<Rightarrow> string) \<Rightarrow> (string \<Rightarrow> int option) \<Rightarrow> (nat \<Rightarrow> int) \<Rightarrow>
   error + ('m, 'i) PreloadData \<Rightarrow> error + ('m, 'i) PreloadData \<Rightarrow> ('m, 'i) GlobalConfig" where
  "getGlobalConfig ensureUTCTimezone getTime clock fetched fetched' =
     (case getGlobalConfig_try ensureUTCTimezone getTime clock fetched fetched' of
        Inr config \<Rightarrow> config
      | Inl e \<Rightarrow> placeholderConfig)"

section \<open>The script locator and getPreloadData (services/config.server.ts)\<close>

text \<open>
  The character classes of the regular expression and of \<^verbatim>\<open>trim\<close>, for code units below
  256: \<^verbatim>\<open>\s\<close> and \<^verbatim>\<open>trim\<close> take the white space and the line terminators (tab, line feed,
  vertical tab, form feed, carriage return, space, no-break space); the dot takes every
  character that is not a line terminator.
\<close>

definition isWhiteSpace :: "char \<Rightarrow> bool" where
  "isWhiteSpace c =
     (c \<in> {CHR 0x09, CHR 0x0A, CHR 0x0B, CHR 0x0C, CHR 0x0D, CHR 0x20, CHR 0xA0})"

definition isLineTerminator :: "char \<Rightarrow> bool" where
  "isLineTerminator c = (c = CHR 0x0A \<or> c = CHR 0x0D)"

definition dot :: "char \<Rightarrow> bool" where
  "dot c = (\<not> isLineTerminator c)"

definition trim :: "string \<Rightarrow> string" where
  "trim s = rev (dropWhile isWhiteSpace (rev (dropWhile isWhiteSpace s)))"

text \<open>
  A backtracking matcher for the patterns the source uses: a pattern is a sequence of
  items, each one character of a class or a greedy star of a class; the flag of an item
  says whether it lies inside the capture group. \<open>rx\<close> matches a pattern at the start
  of a text and returns the text of the group. A star first takes one more character and
  gives it back when the rest of the pattern fails after it.
\<close>

datatype item =
    One bool "char \<Rightarrow> bool"
  | Star bool "char \<Rightarrow> bool"

definition keep :: "bool \<Rightarrow> char \<Rightarrow> string \<Rightarrow> string" where
  "keep g c m = (if g then c # m else m)"

fun rx :: "item list \<Rightarrow> string \<Rightarrow> string option" where
  "rx [] s = Some []"
| "rx (One g p # r) [] = None"
| "rx (One g p # r) (c # cs) = (if p c then map_option (keep g c) (rx r cs) else None)"
| "rx (Star g p # r) [] = rx r []"
| "rx (Star g p # r) (c # cs) =
     (if p c
      then (case rx (Star g p # r) cs of
              Some m \<Rightarrow> Some (keep g c m)
            | None \<Rightarrow> rx r (c # cs))
      else rx r (c # cs))"

text \<open>\<^verbatim>\<open>String.prototype.match\<close> without the global flag: the leftmost match.\<close>

fun regexMatch :: "item list \<Rightarrow> string \<Rightarrow> string option" where
  "regexMatch p [] = rx p []"
| "regexMatch p (c # cs) =
     (case rx p (c # cs) of Some m \<Rightarrow> Some m | None \<Rightarrow> regexMatch p cs)"

text \<open>The pattern \<^verbatim>\<open>/window\.preloadData\s*=\s*({.*});/\<close>.\<close>

definition preloadPattern :: "item list" where
  "preloadPattern =
     map (\<lambda>c. One False (\<lambda>x. x = c)) ''window.preloadData'' @
     [Star False isWhiteSpace,
      One False (\<lambda>x. x = CHR ''=''),
      Star False isWhiteSpace,
      One True (\<lambda>x. x = CHR ''{''),
      Star True dot,
      One True (\<lambda>x. x = CHR ''}''),
      One False (\<lambda>x. x = CHR '';'')]"

text \<open>
  The document as the two queries of the source see it: the text of the element
  \<^verbatim>\<open>#preload-data\<close> (empty when there is none) and the text of the script elements that
  contain \<^verbatim>\<open>window.preloadData\<close> (empty when there is none). The queries are answered by
  the library cheerio.
\<close>

record Document =
  preloadDataText :: string
  preloadScriptText :: string

text \<open>The two strategies of \<^verbatim>\<open>getPreloadData\<close>, up to the value of \<^verbatim>\<open>preloadScript\<close>.\<close>

definition locatePreloadScript :: "Document \<Rightarrow> string" where
  "locatePreloadScript doc =
     (let preloadScript = preloadDataText doc in
      if preloadScript = [] \<or> trim preloadScript = []
      then
        (let scriptWithPreloadData = preloadScriptText doc in
         if scriptWithPreloadData \<noteq> []
         then (case regexMatch preloadPattern scriptWithPreloadData of
                 Some m \<Rightarrow> if m \<noteq> [] then m else preloadScript
               | None \<Rightarrow> preloadScript)
         else preloadScript)
      else preloadScript)"

text \<open>
  The response of \<^verbatim>\<open>customFetch\<close> (services/utils/fetch, not among the sources): the
  flag \<^verbatim>\<open>ok\<close>, the status, the status text and the outcome of \<^verbatim>\<open>text()\<close>.
\<close>

record Response =
  resp_ok :: bool
  resp_status :: nat
  resp_statusText :: string
  resp_text :: "error + Document"

text \<open>
  \<^verbatim>\<open>getPreloadData\<close>. \<open>fetched\<close> is the outcome of \<^verbatim>\<open>customFetch\<close>, and \<open>parse\<close> stands
  for \<^verbatim>\<open>extractPreloadData(sanitizeJsonString(...))\<close>, two functions that are not among
  the sources, with the value they throw or return. The first definition is the body of
  the outer \<^verbatim>\<open>try\<close> with the inner \<^verbatim>\<open>try\<close> and \<^verbatim>\<open>catch\<close>; the second adds the outer
  \<^verbatim>\<open>catch\<close>. The cause attached to an error and the output to the console are left out.
\<close>

definition getPreloadData_try ::
  "(string \<Rightarrow> error + 'p) \<Rightarrow> error + Response \<Rightarrow> error + 'p" where
  "getPreloadData_try parse fetched =
     (case fetched of
        Inl e \<Rightarrow> Inl e
      | Inr htmlResponse \<Rightarrow>
          if \<not> resp_ok htmlResponse
          then Inl (ConfigError (''Failed to get HTML: '' @
                      string_of_nat (resp_status htmlResponse) @ '' '' @
                      resp_statusText htmlResponse))
          else
            (case resp_text htmlResponse of
               Inl e \<Rightarrow> Inl e
             | Inr doc \<Rightarrow>
                 (let preloadScript = locatePreloadScript doc in
                  if preloadScript = [] \<or> trim preloadScript = []
                  then Inl (ConfigError ''Preload script tag not found or empty'')
                  else
                    (case parse preloadScript of
                       Inr preloadData \<Rightarrow> Inr preloadData
                     | Inl (SyntaxError m) \<Rightarrow>
                         Inl (ConfigError (''JSON parsing failed: '' @ m @ [CHR 0x0A] @
                                ''Processed data: '' @ take 100 preloadScript @ ''...''))
                     | Inl (ConfigError m) \<Rightarrow> Inl (ConfigError m)
                     | Inl e \<Rightarrow>
                         Inl (ConfigError (''Failed to parse preload data: '' @
                                (case message e of Some m \<Rightarrow> m
                                 | None \<Rightarrow> ''Unknown error'')))))))"

definition getPreloadData ::
  "(string \<Rightarrow> error + 'p) \<Rightarrow> error + Response \<Rightarrow> error + 'p" where
  "getPreloadData parse fetched =
     (case getPreloadData_try parse fetched of
        Inr preloadData \<Rightarrow> Inr preloadData
      | Inl (ConfigError m) \<Rightarrow> Inl (ConfigError m)
      | Inl e \<Rightarrow>
          Inl (ConfigError
            ''Failed to get preload data, please check network connection and server status''))"

text \<open>
  The rule of the specification, for comparison with \<open>locatePreloadScript\<close>: from the
  first opening brace of the script text to the closing brace that balances it, which a
  semicolon must follow. \<open>balanced d s\<close> scans \<open>s\<close> inside \<open>d\<close> open braces and returns
  the text up to the brace that closes the outermost one, and the text after it.
\<close>

fun balanced :: "nat \<Rightarrow> string \<Rightarrow> (string \<times> string) option" where
  "balanced d [] = None"
| "balanced d (c # cs) =
     (if c = CHR ''{'' then map_option (\<lambda>(l, r). (c # l, r)) (balanced (Suc d) cs)
      else if c = CHR ''}'' then
        (if d \<le> 1 then Some ([c], cs)
         else map_option (\<lambda>(l, r). (c # l, r)) (balanced (d - 1) cs))
      else map_option (\<lambda>(l, r). (c # l, r)) (balanced d cs))"

definition spec_balancedLiteral :: "string \<Rightarrow> string option" where
  "spec_balancedLiteral script =
     (case balanced 0 (dropWhile (\<lambda>c. c \<noteq> CHR ''{'') script) of
        Some (literal, c # rest) \<Rightarrow> if c = CHR '';'' then Some literal else None
      | _ \<Rightarrow> None)"

text \<open>The end of the pattern, from the star of the group on.\<close>

definition closeTail :: "item list" where
  "closeTail =
     [Star True dot, One True (\<lambda>x. x = CHR ''}''), One False (\<lambda>x. x = CHR '';'')]"


section \<open>The sanitizer (utils/json-sanitizer)\<close>

text \<open>
  Modelled from the spec: \<^verbatim>\<open>sanitizeJsonString\<close> is defined in utils/json-sanitizer, which
  is not among the sources; only its calls are. The model follows section 4.3 of the
  specification: one pass over the text that reads one token at a time, aware of string
  literals and comments, and rewrites the token:
  \<^item> a word before a colon (an unquoted key) is put in double quotes;
  \<^item> a single-quoted string, key or value, becomes a double-quoted string, a double
    quote inside it escaped and an escaped single quote left bare;
  \<^item> a comma before a closing brace or bracket is removed;
  \<^item> \<^verbatim>\<open>undefined\<close> and \<^verbatim>\<open>NaN\<close> become \<^verbatim>\<open>null\<close>; a date constructor call around a string
    literal becomes that literal, every other date constructor call and every other
    \<^verbatim>\<open>new\<close> becomes \<^verbatim>\<open>null\<close>;
  \<^item> a comment is removed, a block comment leaving one space;
  \<^item> a double-quoted string, and every other character, is copied.
\<close>

definition isIdent :: "char \<Rightarrow> bool" where
  "isIdent c =
     (c \<in> set ''abcdefghijklmnopqrstuvwxyzABCDEFGHIJKLMNOPQRSTUVWXYZ0123456789_$'')"

text \<open>
  The text of a double-quoted string after its opening quote, up to and with the closing
  quote (or up to the end of the text), and the text after it. A backslash takes the
  next character with it.
\<close>

fun dstr :: "string \<Rightarrow> string \<times> string" where
  "dstr [] = ([], [])"
| "dstr [c] = ([c], [])"
| "dstr (c # d # ds) =
     (if c = CHR 0x22 then ([c], d # ds)
      else if c = CHR 0x5C then (c # d # fst (dstr ds), snd (dstr ds))
      else (c # fst (dstr (d # ds)), snd (dstr (d # ds))))"

text \<open>
  The same for a single-quoted string, rewritten for double quotes: the closing quote
  becomes a double quote, a double quote inside gets a backslash, an escaped single quote
  loses its backslash, every other escape is kept.
\<close>

fun sstr :: "string \<Rightarrow> string \<times> string" where
  "sstr [] = ([], [])"
| "sstr [c] = (if c = CHR 0x27 then [CHR 0x22] else if c = CHR 0x22 then [CHR 0x5C, c] else [c], [])"
| "sstr (c # d # ds) =
     (if c = CHR 0x27 then ([CHR 0x22], d # ds)
      else if c = CHR 0x22 then (CHR 0x5C # c # fst (sstr (d # ds)), snd (sstr (d # ds)))
      else if c = CHR 0x5C then
        (if d = CHR 0x27 then d # fst (sstr ds) else c # d # fst (sstr ds), snd (sstr ds))
      else (c # fst (sstr (d # ds)), snd (sstr (d # ds))))"

text \<open>
  The text after a line comment (from its line terminator on) and after a block comment
  (after the closing \<^verbatim>\<open>*/\<close>), given the text after the two opening characters.
\<close>

definition lineTail :: "string \<Rightarrow> string" where
  "lineTail s = dropWhile (\<lambda>c. \<not> isLineTerminator c) s"

fun blockTail :: "string \<Rightarrow> string" where
  "blockTail [] = []"
| "blockTail (c # cs) =
     (if c = CHR ''*'' \<and> take 1 cs = ''/'' then tl cs else blockTail cs)"

lemma length_blockTail: "length (blockTail s) \<le> length s"
  by (induction s) auto

lemma length_lineTail: "length (lineTail s) \<le> length s"
  by (simp add: lineTail_def length_dropWhile_le)

text \<open>
  Looking ahead: the text from the next significant character on. White space and
  comments are skipped, and commas too when the flag is set.
\<close>

function skipI :: "bool \<Rightarrow> string \<Rightarrow> string" where
  "skipI cm [] = []"
| "skipI cm (c # cs) =
     (if isWhiteSpace c \<or> (cm \<and> c = CHR '','') then skipI cm cs
      else if c = CHR ''/'' \<and> take 1 cs = ''/'' then skipI cm (lineTail (tl cs))
      else if c = CHR ''/'' \<and> take 1 cs = ''*'' then skipI cm (blockTail (tl cs))
      else c # cs)"
  by pat_completeness auto
termination
proof (relation "measure (\<lambda>(cm, s). length s)")
  show "wf (measure (\<lambda>(cm, s). length s))" by simp
next
  fix cm :: bool and c :: char and cs :: string
  show "((cm, cs), cm, c # cs) \<in> measure (\<lambda>(cm, s). length s)" by simp
next
  fix cm :: bool and c :: char and cs :: string
  have "length (lineTail (tl cs)) \<le> length cs"
    using length_lineTail[of "tl cs"] by simp
  then show "((cm, lineTail (tl cs)), cm, c # cs) \<in> measure (\<lambda>(cm, s). length s)" by simp
next
  fix cm :: bool and c :: char and cs :: string
  have "length (blockTail (tl cs)) \<le> length cs"
    using length_blockTail[of "tl cs"] by simp
  then show "((cm, blockTail (tl cs)), cm, c # cs) \<in> measure (\<lambda>(cm, s). length s)" by simp
qed

text \<open>
  A date constructor call after the word \<^verbatim>\<open>new\<close>: \<^verbatim>\<open>Date ( literal )\<close> with a string
  literal becomes that literal in double quotes; any other \<^verbatim>\<open>Date ( ... )\<close> becomes
  \<^verbatim>\<open>null\<close>, when the text after the closing parenthesis can follow a bare word. The
  result is the replacement and the text after the call.
\<close>

definition dateCall :: "string \<Rightarrow> (string \<times> string) option" where
  "dateCall r =
     (let t1 = skipI False r in
      if takeWhile isIdent t1 = ''Date'' then
        (let t2 = skipI False (dropWhile isIdent t1) in
         if take 1 t2 = ''('' then
           (let t3 = skipI False (tl t2);
                lit = (if take 1 t3 = [CHR 0x22] then dstr (tl t3)
                       else if take 1 t3 = [CHR 0x27] then sstr (tl t3)
                       else ([], []));
                t5 = skipI False (snd lit);
                t6 = dropWhile (\<lambda>c. c \<noteq> CHR '')'') (tl t2)
            in if take 1 t5 = '')'' then Some (CHR 0x22 # fst lit, tl t5)
               else if t6 \<noteq> [] \<and> \<not> (\<exists>c\<in>set (take 1 (tl t6)). isIdent c) \<and>
                       take 1 (skipI False (tl t6)) \<noteq> '':''
               then Some (''null'', tl t6)
               else None)
         else None)
      else None)"

text \<open>
  The token that starts with a word: a word before a colon is a key and is quoted;
  \<^verbatim>\<open>new\<close> starts a date constructor call or becomes \<^verbatim>\<open>null\<close>; \<^verbatim>\<open>undefined\<close> and
  \<^verbatim>\<open>NaN\<close> become \<^verbatim>\<open>null\<close>; every other word (a number, \<^verbatim>\<open>true\<close>, \<^verbatim>\<open>null\<close>) is kept.
\<close>

definition wordAt :: "string \<Rightarrow> string \<times> string" where
  "wordAt s =
     (let w = takeWhile isIdent s; r = dropWhile isIdent s in
      if take 1 (skipI False r) = '':'' then (CHR 0x22 # w @ [CHR 0x22], r)
      else if w = ''new'' then
        (case dateCall r of Some (out, rest) \<Rightarrow> (out, rest) | None \<Rightarrow> (''null'', r))
      else if w = ''undefined'' \<or> w = ''NaN'' then (''null'', r)
      else (w, r))"

text \<open>
  The token at the start of a text that is not empty: what it is rewritten to, and the
  text after it. A block comment leaves one space, so that the words around it stay
  apart; a line comment leaves its line terminator. A comma that only white space,
  comments and commas separate from a closing brace or bracket is removed with them.
\<close>

definition tokenAt :: "string \<Rightarrow> string \<times> string" where
  "tokenAt s =
     (case s of
        [] \<Rightarrow> ([], [])
      | c # cs \<Rightarrow>
          if isWhiteSpace c then ([c], cs)
          else if c = CHR ''/'' \<and> take 1 cs = ''/'' then ([], lineTail (tl cs))
          else if c = CHR ''/'' \<and> take 1 cs = ''*'' then ('' '', blockTail (tl cs))
          else if c = CHR 0x22 then (c # fst (dstr cs), snd (dstr cs))
          else if c = CHR 0x27 then (CHR 0x22 # fst (sstr cs), snd (sstr cs))
          else if isIdent c then wordAt (c # cs)
          else if c = CHR '','' then
            (let t = skipI True cs in
             if take 1 t = ''}'' \<or> take 1 t = '']'' then ([], t) else ([c], cs))
          else ([c], cs))"

lemma length_dstr: "length (snd (dstr s)) \<le> length s"
  by (induction s rule: dstr.induct) auto

lemma length_sstr: "length (snd (sstr s)) \<le> length s"
  by (induction s rule: sstr.induct) auto

lemma length_skipI: "length (skipI cm s) \<le> length s"
proof (induction cm s rule: skipI.induct)
  case (1 cm)
  then show ?case by simp
next
  case (2 cm c cs)
  have l: "length (lineTail (tl cs)) \<le> length cs"
    using length_lineTail[of "tl cs"] by simp
  have b: "length (blockTail (tl cs)) \<le> length cs"
    using length_blockTail[of "tl cs"] by simp
  consider (skip) "isWhiteSpace c \<or> (cm \<and> c = CHR '','')"
    | (line) "\<not> (isWhiteSpace c \<or> (cm \<and> c = CHR '',''))" "c = CHR ''/'' \<and> take 1 cs = ''/''"
    | (block) "\<not> (isWhiteSpace c \<or> (cm \<and> c = CHR '',''))"
        "\<not> (c = CHR ''/'' \<and> take 1 cs = ''/'')" "c = CHR ''/'' \<and> take 1 cs = ''*''"
    | (stop) "\<not> (isWhiteSpace c \<or> (cm \<and> c = CHR '',''))"
        "\<not> (c = CHR ''/'' \<and> take 1 cs = ''/'')" "\<not> (c = CHR ''/'' \<and> take 1 cs = ''*'')"
    by blast
  then show ?case
  proof cases
    case skip
    then show ?thesis using "2.IH"(1) by auto
  next
    case line
    then show ?thesis using "2.IH"(2) l by auto
  next
    case block
    then show ?thesis using "2.IH"(3) b by auto
  next
    case stop
    then show ?thesis by auto
  qed
qed

lemma length_dateCall:
  assumes "dateCall r = Some (out, rest)"
  shows "length rest \<le> length r"
proof -
  define t1 where "t1 = skipI False r"
  define t2 where "t2 = skipI False (dropWhile isIdent t1)"
  define t3 where "t3 = skipI False (tl t2)"
  define lit where "lit = (if take 1 t3 = [CHR 0x22] then dstr (tl t3)
                       else if take 1 t3 = [CHR 0x27] then sstr (tl t3)
                       else ([], []))"
  define t5 where "t5 = skipI False (snd lit)"
  define t6 where "t6 = dropWhile (\<lambda>c. c \<noteq> CHR '')'') (tl t2)"
  have 1: "length t1 \<le> length r" unfolding t1_def by (rule length_skipI)
  have "length (dropWhile isIdent t1) \<le> length t1" by (rule length_dropWhile_le)
  then have 2: "length t2 \<le> length t1"
    unfolding t2_def using length_skipI[of False "dropWhile isIdent t1"] by simp
  have 3: "length t3 \<le> length t2"
    unfolding t3_def using length_skipI[of False "tl t2"] by simp
  have "length (snd lit) \<le> length t3"
    unfolding lit_def using length_dstr[of "tl t3"] length_sstr[of "tl t3"] by auto
  then have 5: "length t5 \<le> length t3"
    unfolding t5_def using length_skipI[of False "snd lit"] by simp
  have 6: "length t6 \<le> length t2"
    unfolding t6_def using length_dropWhile_le[of "\<lambda>c. c \<noteq> CHR '')''" "tl t2"] by simp
  from assms have "rest = tl t5 \<or> rest = tl t6"
    unfolding dateCall_def Let_def t1_def[symmetric] t2_def[symmetric] t3_def[symmetric]
      lit_def[symmetric] t5_def[symmetric] t6_def[symmetric]
    by (auto split: if_splits)
  then show ?thesis using 1 2 3 5 6 by auto
qed

lemma length_wordAt: "isIdent c \<Longrightarrow> length (snd (wordAt (c # cs))) < length (c # cs)"
proof -
  assume c: "isIdent c"
  define r where "r = dropWhile isIdent (c # cs)"
  have r: "length r < length (c # cs)"
    unfolding r_def using c length_dropWhile_le[of isIdent cs] by simp
  have "snd (wordAt (c # cs)) = r \<or> (\<exists>out. dateCall r = Some (out, snd (wordAt (c # cs))))"
    unfolding wordAt_def Let_def r_def[symmetric] by (auto split: option.splits)
  then show ?thesis
  proof
    assume "snd (wordAt (c # cs)) = r"
    then show ?thesis using r by simp
  next
    assume "\<exists>out. dateCall r = Some (out, snd (wordAt (c # cs)))"
    then obtain out where "dateCall r = Some (out, snd (wordAt (c # cs)))" by blast
    from length_dateCall[OF this] show ?thesis using r by simp
  qed
qed

lemma length_tokenAt: "s \<noteq> [] \<Longrightarrow> length (snd (tokenAt s)) < length s"
proof (cases s)
  case Nil
  assume "s \<noteq> []"
  with Nil show ?thesis by simp
next
  case (Cons c cs)
  have l: "length (lineTail (tl cs)) \<le> length cs"
    using length_lineTail[of "tl cs"] by simp
  have b: "length (blockTail (tl cs)) \<le> length cs"
    using length_blockTail[of "tl cs"] by simp
  have d: "length (snd (dstr cs)) \<le> length cs" by (rule length_dstr)
  have q: "length (snd (sstr cs)) \<le> length cs" by (rule length_sstr)
  have k: "length (skipI True cs) \<le> length cs" by (rule length_skipI)
  have w: "isIdent c \<Longrightarrow> length (snd (wordAt (c # cs))) < length (c # cs)"
    by (rule length_wordAt)
  show ?thesis
    unfolding Cons tokenAt_def using l b d q k w by (auto simp: Let_def)
qed

text \<open>
  The sanitizer: the tokens of the text one after the other, each rewritten.
\<close>

function sanitizeJsonString :: "string \<Rightarrow> string" where
  "sanitizeJsonString [] = []"
| "sanitizeJsonString (c # cs) =
     fst (tokenAt (c # cs)) @ sanitizeJsonString (snd (tokenAt (c # cs)))"
  by pat_completeness auto
termination
proof (relation "measure length")
  show "wf (measure length)" by simp
next
  fix c :: char and cs :: string
  have "length (snd (tokenAt (c # cs))) < length (c # cs)"
    by (rule length_tokenAt) simp
  then show "(snd (tokenAt (c # cs)), c # cs) \<in> measure length" by simp
qed


section \<open>Example inputs\<close>

text \<open>
  A configuration with two pages whose default page is the second one, and the
  \<^verbatim>\<open>apiConfig\<close> that \<^verbatim>\<open>getConfig\<close> builds from it.
\<close>

definition examplePages :: "PageConfig list" where
  "examplePages =
     [\<lparr> id' = ''a'', name = None,
        siteMeta = \<lparr> title = ''Page A'', description = ''first'', icon = ''/a.svg'' \<rparr> \<rparr>,
      \<lparr> id' = ''b'', name = Some ''B'',
        siteMeta = \<lparr> title = ''Page B'', description = ''second'', icon = ''/b.svg'' \<rparr> \<rparr>]"

definition exampleEnv :: Env where
  "exampleEnv =
     \<lparr> env_baseUrl = ''https://kuma.example'',
       env_defaultPageId = ''b'',
       env_pages = examplePages,
       env_isPlaceholder = False,
       env_isEditThisPage = False,
       env_isShowStarButton = True,
       env_NODE_ENV = ''production'' \<rparr>"

definition exampleApiConfig :: Config where
  "exampleApiConfig =
     \<lparr> baseUrl = ''https://kuma.example'',
       defaultPageId = ''b'',
       pages = examplePages,
       currentPageId = ''b'',
       htmlEndpoint = ''https://kuma.example/status/b'',
       apiEndpoint = ''https://kuma.example/api/status-page/heartbeat/b'',
       cfg_siteMeta = \<lparr> title = ''Page B'', description = ''second'', icon = ''/b.svg'' \<rparr>,
       isPlaceholder = False,
       isEditThisPage = False,
       isShowStarButton = True \<rparr>"

text \<open>The configuration of the first page of the example.\<close>

definition exampleConfigA :: Config where
  "exampleConfigA =
     \<lparr> baseUrl = ''https://kuma.example'',
       defaultPageId = ''b'',
       pages = examplePages,
       currentPageId = ''a'',
       htmlEndpoint = ''https://kuma.example/status/a'',
       apiEndpoint = ''https://kuma.example/api/status-page/heartbeat/a'',
       cfg_siteMeta = \<lparr> title = ''Page A'', description = ''first'', icon = ''/a.svg'' \<rparr>,
       isPlaceholder = False,
       isEditThisPage = False,
       isShowStarButton = True \<rparr>"

text \<open>
  A reading of two date strings in milliseconds, for the examples: the first and the
  second day of January 2024; every other string does not parse.
\<close>

definition exampleGetTime :: "string \<Rightarrow> int option" where
  "exampleGetTime s =
     (if s = ''2024-01-01T00:00:00Z'' then Some 1704067200000
      else if s = ''2024-01-02T00:00:00Z'' then Some 1704153600000
      else None)"

definition exampleMaintenance :: "Timeslot list option \<Rightarrow> Maintenance" where
  "exampleMaintenance slots =
     \<lparr> m_id = 1, m_title = ''Upgrade'', m_description = ''Database upgrade'',
       timeslotList = slots, status = None \<rparr>"

definition examplePreloadData :: "json option \<Rightarrow> (unit, unit) PreloadData" where
  "examplePreloadData config =
     \<lparr> pd_config = config, pd_incident = None,
       pd_maintenanceList = NotArray (Some (JStr ''none'')) \<rparr>"


section \<open>Properties of the page configuration\<close>

lemma getConfig_Inr:
  assumes "getConfig env = Inr A"
  shows "baseUrl A = env_baseUrl env \<and> defaultPageId A = env_defaultPageId env \<and>
     pages A = env_pages env \<and> currentPageId A = env_defaultPageId env \<and>
     htmlEndpoint A = env_baseUrl env @ ''/status/'' @ env_defaultPageId env \<and>
     apiEndpoint A =
       env_baseUrl env @ ''/api/status-page/heartbeat/'' @ env_defaultPageId env \<and>
     cfg_siteMeta A =
       (case find (\<lambda>page. id' page = env_defaultPageId env) (env_pages env) of
          Some page \<Rightarrow> siteMeta page
        | None \<Rightarrow> siteMeta (hd (env_pages env)))"
  using assms by (auto simp: getConfig_def Let_def split: if_splits option.splits)

lemma getConfigForPage_unknown:
  "pageId \<notin> id' ` set (pages A) \<Longrightarrow> getConfigForPage A pageId = A"
proof -
  assume "pageId \<notin> id' ` set (pages A)"
  then have "find (\<lambda>p. id' p = pageId) (pages A) = None"
    by (auto simp: find_None_iff)
  then show ?thesis by (simp add: getConfigForPage_def)
qed

lemma getConfigForPage_store_eq:
  assumes "a < length st"
  shows "getConfigForPage_store st a pageId =
           (length st, st @ [getConfigForPage (st ! a) pageId])"
  using assms
  by (auto simp: getConfigForPage_store_def getConfigForPage_def Let_def nth_append
           split: option.splits)

lemma example_getConfig: "getConfig exampleEnv = Inr exampleApiConfig"
  by (simp add: getConfig_def exampleEnv_def exampleApiConfig_def examplePages_def)

lemma example_unknown: "''missing'' \<notin> id' ` set (pages exampleApiConfig)"
  by (simp add: exampleApiConfig_def examplePages_def)

text \<open>
  Claim C6, as amended. For a page id that matches no configured page,
  \<^verbatim>\<open>getConfigForPage\<close> does not fail and returns the fields of \<^verbatim>\<open>apiConfig\<close> unchanged:
  the current page id is the default page id, the two endpoints are derived from the
  default page id, and the site metadata is that of the page whose id is the default
  page id, or of the first page when no page has that id.
\<close>

theorem getConfigForPage_unknown_is_default:
  assumes "getConfig env = Inr A" and "pageId \<notin> id' ` set (pages A)"
  shows "getConfigForPage A pageId = A \<and>
         currentPageId (getConfigForPage A pageId) = defaultPageId A \<and>
         htmlEndpoint (getConfigForPage A pageId) =
           baseUrl A @ ''/status/'' @ defaultPageId A \<and>
         apiEndpoint (getConfigForPage A pageId) =
           baseUrl A @ ''/api/status-page/heartbeat/'' @ defaultPageId A \<and>
         cfg_siteMeta (getConfigForPage A pageId) =
           (case find (\<lambda>p. id' p = defaultPageId A) (pages A) of
              Some p \<Rightarrow> siteMeta p
            | None \<Rightarrow> siteMeta (hd (pages A)))"
proof -
  have same: "getConfigForPage A pageId = A"
    using assms(2) by (rule getConfigForPage_unknown)
  from getConfig_Inr[OF assms(1)] show ?thesis
    by (simp add: same split: option.splits)
qed

theorem getConfigForPage_unknown_is_default_witness:
  "getConfig exampleEnv = Inr exampleApiConfig \<and>
   ''missing'' \<notin> id' ` set (pages exampleApiConfig) \<and>
   getConfigForPage exampleApiConfig ''missing'' = exampleApiConfig \<and>
   htmlEndpoint (getConfigForPage exampleApiConfig ''missing'') =
     ''https://kuma.example/status/b'' \<and>
   cfg_siteMeta (getConfigForPage exampleApiConfig ''missing'') =
     \<lparr> title = ''Page B'', description = ''second'', icon = ''/b.svg'' \<rparr>"
  using getConfigForPage_unknown_is_default[OF example_getConfig example_unknown]
    example_getConfig example_unknown
  by (simp add: exampleApiConfig_def examplePages_def)

text \<open>
  The claim as the specification states it fails: with the second page as the default
  page, an unknown page id gets the data and the endpoints of the second page, not
  those of the first entry of the page list.
\<close>

theorem getConfigForPage_unknown_not_first_page:
  "getConfig exampleEnv = Inr exampleApiConfig \<and>
   ''missing'' \<notin> id' ` set (pages exampleApiConfig) \<and>
   cfg_siteMeta (getConfigForPage exampleApiConfig ''missing'') \<noteq>
     siteMeta (hd (pages exampleApiConfig)) \<and>
   htmlEndpoint (getConfigForPage exampleApiConfig ''missing'') \<noteq>
     baseUrl exampleApiConfig @ ''/status/'' @ id' (hd (pages exampleApiConfig)) \<and>
   apiEndpoint (getConfigForPage exampleApiConfig ''missing'') \<noteq>
     baseUrl exampleApiConfig @ ''/api/status-page/heartbeat/'' @
       id' (hd (pages exampleApiConfig))"
  using example_getConfig example_unknown
  by (simp add: getConfigForPage_unknown[OF example_unknown])
     (simp add: exampleApiConfig_def examplePages_def)

text \<open>
  Claim C9. For every page id, known or unknown, the object that \<^verbatim>\<open>getConfigForPage\<close>
  returns has its two endpoints derived from its own base URL and current page id; the
  object is a new one, and the call leaves every object of the store, \<^verbatim>\<open>apiConfig\<close>
  among them, with the fields it had.
\<close>

theorem getConfigForPage_endpoints_consistent:
  assumes "getConfig env = Inr A" and "a < length st" and "st ! a = A"
    and "getConfigForPage_store st a pageId = (c, st')"
  shows "htmlEndpoint (st' ! c) = baseUrl (st' ! c) @ ''/status/'' @ currentPageId (st' ! c) \<and>
         apiEndpoint (st' ! c) =
           baseUrl (st' ! c) @ ''/api/status-page/heartbeat/'' @ currentPageId (st' ! c) \<and>
         st' ! c = getConfigForPage A pageId \<and>
         c \<noteq> a \<and> take (length st) st' = st \<and> st' ! a = A"
proof -
  from assms(2,4) have c: "c = length st"
    and st': "st' = st @ [getConfigForPage (st ! a) pageId]"
    by (simp_all add: getConfigForPage_store_eq)
  have r: "st' ! c = getConfigForPage A pageId" by (simp add: c st' assms(3))
  have frame: "c \<noteq> a \<and> take (length st) st' = st \<and> st' ! a = A"
    using assms(2,3) by (simp add: c st' nth_append)
  from getConfig_Inr[OF assms(1)]
  have "htmlEndpoint (getConfigForPage A pageId) =
          baseUrl (getConfigForPage A pageId) @ ''/status/'' @
            currentPageId (getConfigForPage A pageId) \<and>
        apiEndpoint (getConfigForPage A pageId) =
          baseUrl (getConfigForPage A pageId) @ ''/api/status-page/heartbeat/'' @
            currentPageId (getConfigForPage A pageId)"
    by (auto simp: getConfigForPage_def split: option.splits)
  with r frame show ?thesis by simp
qed

theorem getConfigForPage_endpoints_consistent_witness:
  "getConfigForPage_store [exampleApiConfig] 0 ''a'' = (1, [exampleApiConfig, exampleConfigA]) \<and>
   htmlEndpoint exampleConfigA =
     baseUrl exampleConfigA @ ''/status/'' @ currentPageId exampleConfigA \<and>
   apiEndpoint exampleConfigA =
     baseUrl exampleConfigA @ ''/api/status-page/heartbeat/'' @ currentPageId exampleConfigA \<and>
   [exampleApiConfig, exampleConfigA] ! 0 = exampleApiConfig"
proof -
  have run: "getConfigForPage_store [exampleApiConfig] 0 ''a'' =
               (1, [exampleApiConfig, exampleConfigA])"
    by (simp add: getConfigForPage_store_def exampleApiConfig_def exampleConfigA_def
          examplePages_def)
  have "(0::nat) < length [exampleApiConfig]" and "[exampleApiConfig] ! 0 = exampleApiConfig"
    by simp_all
  from getConfigForPage_endpoints_consistent[OF example_getConfig this run]
  have "htmlEndpoint ([exampleApiConfig, exampleConfigA] ! 1) =
          baseUrl ([exampleApiConfig, exampleConfigA] ! 1) @ ''/status/'' @
            currentPageId ([exampleApiConfig, exampleConfigA] ! 1) \<and>
        apiEndpoint ([exampleApiConfig, exampleConfigA] ! 1) =
          baseUrl ([exampleApiConfig, exampleConfigA] ! 1) @ ''/api/status-page/heartbeat/'' @
            currentPageId ([exampleApiConfig, exampleConfigA] ! 1)"
    by blast
  then show ?thesis using run by simp
qed


section \<open>Properties of the maintenance status\<close>

lemma processMaintenance_frame:
  "processMaintenance E G now m =
     m \<lparr> timeslotList :=
           map_option (map (\<lambda>slot. \<lparr> startDate = E (startDate slot),
                                      endDate = E (endDate slot) \<rparr>)) (timeslotList m),
         status := status (processMaintenance E G now m) \<rparr>"
  by (cases m) (simp add: processMaintenance_def Let_def split: option.splits list.splits)

lemma timeslot_ordered_no_overlap:
  "G (E (startDate slot)) = Some start \<Longrightarrow> G (E (endDate slot)) = Some end' \<Longrightarrow>
   start \<le> end' \<Longrightarrow>
   \<not> (js_lt now (G (E (startDate slot))) \<and> js_ge now (G (E (endDate slot))))"
  by (simp add: js_lt_def js_ge_def)



text \<open>
  On a timeslot that ends before it starts, at a time between the end and the start,
  both \<open>now < start\<close> and \<open>now \<ge> end\<close> hold; the code tests \<open>now < start\<close> first and
  answers \<^verbatim>\<open>scheduled\<close>.
\<close>

lemma processMaintenance_inverted_slot:
  "status (processMaintenance (\<lambda>s. s) exampleGetTime 1704100000000
     (exampleMaintenance
        (Some [\<lparr> startDate = ''2024-01-02T00:00:00Z'',
                 endDate = ''2024-01-01T00:00:00Z'' \<rparr>]))) = Some ''scheduled''"
  by (simp add: processMaintenance_def exampleGetTime_def exampleMaintenance_def
        js_ge_def js_lt_def)

text \<open>
  Claim C10. For every input list, \<^verbatim>\<open>processMaintenanceData\<close> returns a list of the same
  length in the same order, and each element of the result is the element of the input
  at the same position with two fields changed at most: \<^verbatim>\<open>timeslotList\<close>, where each
  slot has its two dates normalised by \<^verbatim>\<open>ensureUTCTimezone\<close>, and \<^verbatim>\<open>status\<close>. Every
  other field is the one of the input, whatever the clock reads.
\<close>

theorem processMaintenanceData_frame:
  "length (processMaintenanceData E G clock ms) = length ms \<and>
   list_all2
     (\<lambda>m p. p = m \<lparr> timeslotList :=
                       map_option (map (\<lambda>slot. \<lparr> startDate = E (startDate slot),
                                                  endDate = E (endDate slot) \<rparr>))
                         (timeslotList m),
                     status := status p \<rparr>)
     ms (processMaintenanceData E G clock ms)"
  unfolding list_all2_conv_all_nth processMaintenanceData_def
  using processMaintenance_frame by (auto simp: nth_enumerate_eq)

theorem processMaintenanceData_frame_witness:
  "processMaintenanceData (\<lambda>s. s @ ''Z'') exampleGetTime (\<lambda>i. 1704100000000)
     [exampleMaintenance None,
      exampleMaintenance (Some [\<lparr> startDate = ''2024-01-01T00:00:00'',
                                 endDate = ''2024-01-02T00:00:00'' \<rparr>])]
   = [exampleMaintenance None,
      (exampleMaintenance (Some [\<lparr> startDate = ''2024-01-01T00:00:00Z'',
                                  endDate = ''2024-01-02T00:00:00Z'' \<rparr>]))
        \<lparr> status := Some ''under-maintenance'' \<rparr>]"
proof -
  let ?ms = "[exampleMaintenance None,
      exampleMaintenance (Some [\<lparr> startDate = ''2024-01-01T00:00:00'',
                                 endDate = ''2024-01-02T00:00:00'' \<rparr>])]"
  let ?out = "processMaintenanceData (\<lambda>s. s @ ''Z'') exampleGetTime (\<lambda>i. 1704100000000) ?ms"
  have len: "length ?out = 2"
    using processMaintenanceData_frame[of "\<lambda>s. s @ ''Z''" exampleGetTime
        "\<lambda>i. 1704100000000" ?ms]
    by simp
  have "?out = [processMaintenance (\<lambda>s. s @ ''Z'') exampleGetTime 1704100000000 (?ms ! 0),
                processMaintenance (\<lambda>s. s @ ''Z'') exampleGetTime 1704100000000 (?ms ! 1)]"
    by (simp add: processMaintenanceData_def)
  then show ?thesis using len
    by (simp add: processMaintenance_def exampleGetTime_def exampleMaintenance_def
          js_ge_def js_lt_def)
qed


section \<open>Properties of the global configuration\<close>

lemma getGlobalConfig_try_Inr:
  assumes "getGlobalConfig_try E G clock f f' = Inr c"
  shows "\<exists>p config raw. f = Inr p \<and> pd_config p = Some config \<and> truthy config \<and>
           checkRequiredFields requiredFields config = Inr () \<and>
           getProperty config ''theme'' = Some (JStr raw) \<and>
           gc_config c = JObj (AList.update ''theme''
               (JStr (if raw = ''dark'' then ''dark''
                      else if raw = ''light'' then ''light'' else ''system''))
               (ownProperties config)) \<and>
           gc_maintenanceList c = md_maintenanceList (getMaintenanceData E G clock f')"
proof -
  obtain p where f: "f = Inr p"
    using assms by (cases f) (simp_all add: getGlobalConfig_try_def)
  obtain config where cfg: "pd_config p = Some config"
    using assms f by (cases "pd_config p") (simp_all add: getGlobalConfig_try_def)
  have tr: "truthy config"
    using assms f cfg by (cases "truthy config") (simp_all add: getGlobalConfig_try_def)
  have ck: "checkRequiredFields requiredFields config = Inr ()"
    using assms f cfg tr
    by (cases "checkRequiredFields requiredFields config")
       (simp_all add: getGlobalConfig_try_def)
  obtain v where v: "getProperty config ''theme'' = Some v"
    using assms f cfg tr ck
    by (cases "getProperty config ''theme''") (simp_all add: getGlobalConfig_try_def)
  obtain raw where raw: "v = JStr raw"
    using assms f cfg tr ck v by (cases v) (simp_all add: getGlobalConfig_try_def)
  have "c = \<lparr> gc_config = JObj (AList.update ''theme''
               (JStr (if raw = ''dark'' then ''dark''
                      else if raw = ''light'' then ''light'' else ''system''))
               (ownProperties config)),
             gc_incident = map_option
                  (\<lambda>incident. incident \<lparr> createdDate := E (createdDate incident),
                      lastUpdatedDate := E (lastUpdatedDate incident) \<rparr>) (pd_incident p),
             gc_maintenanceList = md_maintenanceList (getMaintenanceData E G clock f') \<rparr>"
    using assms f cfg tr ck v raw by (simp add: getGlobalConfig_try_def Let_def)
  then show ?thesis using f cfg tr ck v raw by simp
qed

lemma placeholder_theme:
  "getProperty (gc_config placeholderConfig) ''theme'' = Some (JStr ''system'')"
  by (simp add: placeholderConfig_def)

lemma checkRequiredFields_object:
  "checkRequiredFields names (JObj fs) = Inr () \<longleftrightarrow> set names \<subseteq> fst ` set fs"
  by (induction names) auto

lemma checkRequiredFields_missing:
  "field \<in> set names \<Longrightarrow> field \<notin> fst ` set fs \<Longrightarrow>
     \<exists>e. checkRequiredFields names (JObj fs) = Inl e"
  by (induction names) auto

lemma getMaintenanceData_NotArray:
  "pd_maintenanceList p = NotArray v \<Longrightarrow>
     getMaintenanceData E G clock (Inr p) =
       \<lparr> success = False, md_maintenanceList = [],
         md_error = Some ''Maintenance list data must be an array'' \<rparr>"
  by (simp add: getMaintenanceData_def getMaintenanceData_try_def)

text \<open>
  Claim C4. Every configuration that \<^verbatim>\<open>getGlobalConfig\<close> returns, the placeholder
  included, has a theme that is one of \<^verbatim>\<open>light\<close>, \<^verbatim>\<open>dark\<close> and \<^verbatim>\<open>system\<close>, whatever the
  two fetches gave. For a payload whose configuration is an object with the required
  fields and a string as its theme, the theme returned is \<^verbatim>\<open>dark\<close> for \<^verbatim>\<open>dark\<close>,
  \<^verbatim>\<open>light\<close> for \<^verbatim>\<open>light\<close> and \<^verbatim>\<open>system\<close> for every other string.
\<close>

theorem getGlobalConfig_theme:
  "getProperty (gc_config (getGlobalConfig E G clock f f')) ''theme''
     \<in> {Some (JStr ''light''), Some (JStr ''dark''), Some (JStr ''system'')} \<and>
   (f = Inr p \<and> pd_config p = Some (JObj fs) \<and> set requiredFields \<subseteq> fst ` set fs \<and>
    map_of fs ''theme'' = Some (JStr raw) \<longrightarrow>
      getProperty (gc_config (getGlobalConfig E G clock f f')) ''theme'' =
        Some (JStr (if raw = ''dark'' then ''dark''
                    else if raw = ''light'' then ''light''
                    else ''system'')))"
proof (intro conjI impI)
  show "getProperty (gc_config (getGlobalConfig E G clock f f')) ''theme''
     \<in> {Some (JStr ''light''), Some (JStr ''dark''), Some (JStr ''system'')}"
  proof (cases "getGlobalConfig_try E G clock f f'")
    case (Inl e)
    then show ?thesis by (simp add: getGlobalConfig_def placeholder_theme)
  next
    case (Inr c)
    from getGlobalConfig_try_Inr[OF Inr] obtain raw' config where
      "gc_config c = JObj (AList.update ''theme''
               (JStr (if raw' = ''dark'' then ''dark''
                      else if raw' = ''light'' then ''light'' else ''system''))
               (ownProperties config))" by blast
    then show ?thesis using Inr by (simp add: getGlobalConfig_def update_conv')
  qed
next
  assume a: "f = Inr p \<and> pd_config p = Some (JObj fs) \<and>
    set requiredFields \<subseteq> fst ` set fs \<and> map_of fs ''theme'' = Some (JStr raw)"
  then have "checkRequiredFields requiredFields (JObj fs) = Inr ()"
    by (simp add: checkRequiredFields_object)
  with a show "getProperty (gc_config (getGlobalConfig E G clock f f')) ''theme'' =
        Some (JStr (if raw = ''dark'' then ''dark''
                    else if raw = ''light'' then ''light''
                    else ''system''))"
    by (simp add: getGlobalConfig_def getGlobalConfig_try_def Let_def update_conv')
qed

theorem getGlobalConfig_theme_witness:
  "getProperty (gc_config (getGlobalConfig (\<lambda>s. s) exampleGetTime (\<lambda>i. 0)
      (Inr (examplePreloadData (Some (JObj
         [(''slug'', JStr ''main''), (''title'', JStr ''Status''),
          (''description'', JNull), (''icon'', JStr ''/icon.svg''),
          (''theme'', JStr ''auto'')]))))
      (Inl (ConfigError ''unreachable'')))) ''theme'' = Some (JStr ''system'')"
proof -
  let ?fs = "[(''slug'', JStr ''main''), (''title'', JStr ''Status''),
          (''description'', JNull), (''icon'', JStr ''/icon.svg''),
          (''theme'', JStr ''auto'')]"
  have h: "Inr (examplePreloadData (Some (JObj ?fs))) = Inr (examplePreloadData (Some (JObj ?fs))) \<and>
      pd_config (examplePreloadData (Some (JObj ?fs))) = Some (JObj ?fs) \<and>
      set requiredFields \<subseteq> fst ` set ?fs \<and> map_of ?fs ''theme'' = Some (JStr ''auto'')"
    by (simp add: examplePreloadData_def requiredFields_def)
  from getGlobalConfig_theme[where f = "Inr (examplePreloadData (Some (JObj ?fs)))"
      and p = "examplePreloadData (Some (JObj ?fs))" and fs = ?fs and raw = "''auto''",
      THEN conjunct2, THEN mp, OF h]
  show ?thesis by simp
qed

text \<open>
  Claim C5. For every payload whose \<^verbatim>\<open>maintenanceList\<close> is not an array,
  \<^verbatim>\<open>getMaintenanceData\<close> catches the error it throws and returns \<^verbatim>\<open>success: false\<close> with
  an empty list (and the message of the error), and \<^verbatim>\<open>getGlobalConfig\<close>, whose call of
  \<^verbatim>\<open>getMaintenanceData\<close> receives this payload, returns a configuration with an empty
  maintenance list. Both functions are total: neither raises.
\<close>

theorem maintenanceList_not_array_degrades:
  "f' = Inr p \<and> pd_maintenanceList p = NotArray v \<longrightarrow>
     getMaintenanceData E G clock f' =
       \<lparr> success = False, md_maintenanceList = [],
         md_error = Some ''Maintenance list data must be an array'' \<rparr> \<and>
     gc_maintenanceList (getGlobalConfig E G clock f f') = []"
proof (intro impI)
  assume a: "f' = Inr p \<and> pd_maintenanceList p = NotArray v"
  then have m: "getMaintenanceData E G clock f' =
       \<lparr> success = False, md_maintenanceList = [],
         md_error = Some ''Maintenance list data must be an array'' \<rparr>"
    by (simp add: getMaintenanceData_NotArray)
  have "gc_maintenanceList (getGlobalConfig E G clock f f') = []"
  proof (cases "getGlobalConfig_try E G clock f f'")
    case (Inl e)
    then show ?thesis by (simp add: getGlobalConfig_def placeholderConfig_def)
  next
    case (Inr c)
    from getGlobalConfig_try_Inr[OF Inr] m show ?thesis using Inr
      by (auto simp add: getGlobalConfig_def)
  qed
  with m show "getMaintenanceData E G clock f' =
       \<lparr> success = False, md_maintenanceList = [],
         md_error = Some ''Maintenance list data must be an array'' \<rparr> \<and>
     gc_maintenanceList (getGlobalConfig E G clock f f') = []" by simp
qed

theorem maintenanceList_not_array_degrades_witness:
  "pd_maintenanceList (examplePreloadData (Some (JObj
         [(''slug'', JStr ''main''), (''title'', JStr ''Status''),
          (''description'', JNull), (''icon'', JStr ''/icon.svg''),
          (''theme'', JStr ''dark'')]))) = NotArray (Some (JStr ''none'')) \<and>
   success (getMaintenanceData (\<lambda>s. s) exampleGetTime (\<lambda>i. 0)
      (Inr (examplePreloadData (Some (JObj
         [(''slug'', JStr ''main''), (''title'', JStr ''Status''),
          (''description'', JNull), (''icon'', JStr ''/icon.svg''),
          (''theme'', JStr ''dark'')]))))) = False \<and>
   getGlobalConfig (\<lambda>s. s) exampleGetTime (\<lambda>i. 0)
      (Inr (examplePreloadData (Some (JObj
         [(''slug'', JStr ''main''), (''title'', JStr ''Status''),
          (''description'', JNull), (''icon'', JStr ''/icon.svg''),
          (''theme'', JStr ''dark'')]))))
      (Inr (examplePreloadData (Some (JObj
         [(''slug'', JStr ''main''), (''title'', JStr ''Status''),
          (''description'', JNull), (''icon'', JStr ''/icon.svg''),
          (''theme'', JStr ''dark'')]))))
    = \<lparr> gc_config = JObj
         [(''slug'', JStr ''main''), (''title'', JStr ''Status''),
          (''description'', JNull), (''icon'', JStr ''/icon.svg''),
          (''theme'', JStr ''dark'')],
        gc_incident = None, gc_maintenanceList = [] \<rparr>"
proof -
  let ?p = "examplePreloadData (Some (JObj
         [(''slug'', JStr ''main''), (''title'', JStr ''Status''),
          (''description'', JNull), (''icon'', JStr ''/icon.svg''),
          (''theme'', JStr ''dark'')]))"
  have h: "Inr ?p = Inr ?p \<and> pd_maintenanceList ?p = NotArray (Some (JStr ''none''))"
    by (simp add: examplePreloadData_def)
  from maintenanceList_not_array_degrades[where f' = "Inr ?p" and p = ?p
      and v = "Some (JStr ''none'')" and E = "\<lambda>s. s" and G = exampleGetTime
      and clock = "\<lambda>i. 0" and f = "Inr ?p", THEN mp, OF h]
  have d: "getMaintenanceData (\<lambda>s. s) exampleGetTime (\<lambda>i. 0) (Inr ?p) =
       \<lparr> success = False, md_maintenanceList = [],
         md_error = Some ''Maintenance list data must be an array'' \<rparr>"
    and g: "gc_maintenanceList (getGlobalConfig (\<lambda>s. s) exampleGetTime (\<lambda>i. 0)
              (Inr ?p) (Inr ?p)) = []"
    by simp_all
  have "getGlobalConfig (\<lambda>s. s) exampleGetTime (\<lambda>i. 0) (Inr ?p) (Inr ?p)
     = \<lparr> gc_config = JObj
         [(''slug'', JStr ''main''), (''title'', JStr ''Status''),
          (''description'', JNull), (''icon'', JStr ''/icon.svg''),
          (''theme'', JStr ''dark'')],
        gc_incident = None, gc_maintenanceList = [] \<rparr>"
    using d
    by (simp add: getGlobalConfig_def getGlobalConfig_try_def examplePreloadData_def
          requiredFields_def)
  with h d show ?thesis by simp
qed

text \<open>
  Claim C7, as amended. Whenever the validation of the configuration fails in
  \<^verbatim>\<open>getGlobalConfig\<close> (the configuration absent or falsy, a required field missing, or
  a theme that is not a string), the call does not raise and returns the placeholder:
  empty strings for slug, title, description, customCSS and footerText, the icon
  \<^verbatim>\<open>/icon.svg\<close>, the theme \<^verbatim>\<open>system\<close>, \<^verbatim>\<open>showPoweredBy\<close> and
  \<^verbatim>\<open>showCertificateExpiry\<close> false, \<^verbatim>\<open>published\<close> and \<^verbatim>\<open>showTags\<close> true,
  \<^verbatim>\<open>googleAnalyticsId\<close> null, no incident and an empty maintenance list.
\<close>

theorem getGlobalConfig_validation_failure_placeholder:
  "f = Inr p \<and>
   (pd_config p = None \<or>
    (\<exists>c. pd_config p = Some c \<and> \<not> truthy c) \<or>
    (\<exists>fs field. pd_config p = Some (JObj fs) \<and> field \<in> set requiredFields \<and>
        field \<notin> fst ` set fs) \<or>
    (\<exists>fs. pd_config p = Some (JObj fs) \<and> (\<forall>s. map_of fs ''theme'' \<noteq> Some (JStr s)))) \<longrightarrow>
   getGlobalConfig E G clock f f' =
     \<lparr> gc_config = JObj
         [(''slug'', JStr []),
          (''title'', JStr []),
          (''description'', JStr []),
          (''icon'', JStr ''/icon.svg''),
          (''theme'', JStr ''system''),
          (''published'', JBool True),
          (''showTags'', JBool True),
          (''customCSS'', JStr []),
          (''footerText'', JStr []),
          (''showPoweredBy'', JBool False),
          (''googleAnalyticsId'', JNull),
          (''showCertificateExpiry'', JBool False)],
       gc_incident = None,
       gc_maintenanceList = [] \<rparr>"
proof (intro impI)
  assume a: "f = Inr p \<and>
   (pd_config p = None \<or>
    (\<exists>c. pd_config p = Some c \<and> \<not> truthy c) \<or>
    (\<exists>fs field. pd_config p = Some (JObj fs) \<and> field \<in> set requiredFields \<and>
        field \<notin> fst ` set fs) \<or>
    (\<exists>fs. pd_config p = Some (JObj fs) \<and> (\<forall>s. map_of fs ''theme'' \<noteq> Some (JStr s))))"
  have "\<exists>e. getGlobalConfig_try E G clock f f' = Inl e"
  proof -
    from a have f: "f = Inr p" by simp
    from a consider
        (absent) "pd_config p = None"
      | (falsy) c where "pd_config p = Some c" "\<not> truthy c"
      | (missing) fs field where "pd_config p = Some (JObj fs)"
          "field \<in> set requiredFields" "field \<notin> fst ` set fs"
      | (theme) fs where "pd_config p = Some (JObj fs)"
          "\<forall>s. map_of fs ''theme'' \<noteq> Some (JStr s)"
      by (elim conjE disjE exE) auto
    then show ?thesis
    proof cases
      case absent
      then show ?thesis by (simp add: getGlobalConfig_try_def f)
    next
      case falsy
      then show ?thesis by (simp add: getGlobalConfig_try_def f)
    next
      case missing
      from checkRequiredFields_missing[OF missing(2,3)] obtain e where
        "checkRequiredFields requiredFields (JObj fs) = Inl e" by blast
      then show ?thesis using missing(1) by (simp add: getGlobalConfig_try_def f)
    next
      case theme
      show ?thesis
      proof (cases "checkRequiredFields requiredFields (JObj fs)")
        case (Inl e)
        then show ?thesis using theme(1) by (simp add: getGlobalConfig_try_def f)
      next
        case (Inr u)
        show ?thesis
        proof (cases "map_of fs ''theme''")
          case None
          then show ?thesis using theme(1) Inr by (simp add: getGlobalConfig_try_def f)
        next
          case (Some v)
          with theme(2) have "\<forall>s. v \<noteq> JStr s" by simp
          then show ?thesis using theme(1) Inr Some
            by (cases v) (simp_all add: getGlobalConfig_try_def f)
        qed
      qed
    qed
  qed
  then show "getGlobalConfig E G clock f f' =
     \<lparr> gc_config = JObj
         [(''slug'', JStr []),
          (''title'', JStr []),
          (''description'', JStr []),
          (''icon'', JStr ''/icon.svg''),
          (''theme'', JStr ''system''),
          (''published'', JBool True),
          (''showTags'', JBool True),
          (''customCSS'', JStr []),
          (''footerText'', JStr []),
          (''showPoweredBy'', JBool False),
          (''googleAnalyticsId'', JNull),
          (''showCertificateExpiry'', JBool False)],
       gc_incident = None,
       gc_maintenanceList = [] \<rparr>"
    by (auto simp: getGlobalConfig_def placeholderConfig_def)
qed

theorem getGlobalConfig_validation_failure_placeholder_witness:
  "getProperty (gc_config (getGlobalConfig (\<lambda>s. s) exampleGetTime (\<lambda>i. 0)
      (Inr (examplePreloadData (Some (JObj
         [(''slug'', JStr ''main''), (''title'', JStr ''Status''),
          (''theme'', JNum 1)]))))
      (Inr (examplePreloadData None)))) ''icon'' = Some (JStr ''/icon.svg'') \<and>
   gc_maintenanceList (getGlobalConfig (\<lambda>s. s) exampleGetTime (\<lambda>i. 0)
      (Inr (examplePreloadData (Some (JObj
         [(''slug'', JStr ''main''), (''title'', JStr ''Status''),
          (''theme'', JNum 1)]))))
      (Inr (examplePreloadData None))) = []"
proof -
  let ?fs = "[(''slug'', JStr ''main''), (''title'', JStr ''Status''), (''theme'', JNum 1)]"
  let ?p = "examplePreloadData (Some (JObj ?fs))"
  have "pd_config ?p = Some (JObj ?fs) \<and> ''icon'' \<in> set requiredFields \<and>
        ''icon'' \<notin> fst ` set ?fs"
    by (simp add: examplePreloadData_def requiredFields_def)
  then have h: "Inr ?p = Inr ?p \<and>
   (pd_config ?p = None \<or>
    (\<exists>c. pd_config ?p = Some c \<and> \<not> truthy c) \<or>
    (\<exists>fs field. pd_config ?p = Some (JObj fs) \<and> field \<in> set requiredFields \<and>
        field \<notin> fst ` set fs) \<or>
    (\<exists>fs. pd_config ?p = Some (JObj fs) \<and> (\<forall>s. map_of fs ''theme'' \<noteq> Some (JStr s))))"
    by blast
  from getGlobalConfig_validation_failure_placeholder[where f = "Inr ?p" and p = ?p
      and E = "\<lambda>s. s" and G = exampleGetTime and clock = "\<lambda>i. 0"
      and f' = "Inr (examplePreloadData None)", THEN mp, OF h]
  show ?thesis by simp
qed

text \<open>
  The claim as the specification states it fails: the placeholder does not have every
  boolean flag off. With no configuration in the payload, \<^verbatim>\<open>published\<close> and
  \<^verbatim>\<open>showTags\<close> of the configuration returned are true.
\<close>

theorem placeholder_flags_not_all_off:
  "getProperty (gc_config (getGlobalConfig (\<lambda>s. s) exampleGetTime (\<lambda>i. 0)
      (Inr (examplePreloadData None)) (Inr (examplePreloadData None)))) ''published''
     = Some (JBool True) \<and>
   getProperty (gc_config (getGlobalConfig (\<lambda>s. s) exampleGetTime (\<lambda>i. 0)
      (Inr (examplePreloadData None)) (Inr (examplePreloadData None)))) ''showTags''
     = Some (JBool True)"
  by (simp add: getGlobalConfig_def getGlobalConfig_try_def examplePreloadData_def
        placeholderConfig_def)


section \<open>Properties of the script locator and of getPreloadData\<close>

lemma keep_False: "map_option (keep False c) x = x"
  by (cases x) (simp_all add: keep_def)

lemma rx_literal:
  "rx (map (\<lambda>c. One False (\<lambda>x. x = c)) lit @ r) (lit @ s) = rx r s"
  by (induction lit) (simp_all add: keep_False)

lemma rx_star_skip:
  assumes "\<forall>c\<in>set ws. p c \<and> \<not> q c" and "q d" and "\<not> p d"
  shows "rx (Star False p # One g q # r) (ws @ d # s) = rx (One g q # r) (d # s)"
  using assms
proof (induction ws)
  case Nil
  then show ?case by simp
next
  case (Cons w ws)
  then have IH: "rx (Star False p # One g q # r) (ws @ d # s) = rx (One g q # r) (d # s)"
    and w: "p w" "\<not> q w" by simp_all
  show ?case
  proof (cases "rx (One g q # r) (d # s)")
    case None
    then show ?thesis using IH w by simp
  next
    case (Some m)
    then show ?thesis using IH w by (simp add: keep_def)
  qed
qed

lemma rx_closeTail_None:
  "\<not> (\<exists>u v. takeWhile dot rest = u @ ''};'' @ v) \<Longrightarrow> rx closeTail rest = None"
proof (induction rest)
  case Nil
  then show ?case by (simp add: closeTail_def)
next
  case (Cons c cs)
  show ?case
  proof (cases "dot c")
    case False
    then have "c \<noteq> CHR ''}''" by (auto simp: dot_def isLineTerminator_def)
    with False show ?thesis by (simp add: closeTail_def)
  next
    case True
    have "\<not> (\<exists>u v. takeWhile dot cs = u @ ''};'' @ v)"
    proof
      assume "\<exists>u v. takeWhile dot cs = u @ ''};'' @ v"
      then obtain u v where "takeWhile dot cs = u @ ''};'' @ v" by blast
      then have "takeWhile dot (c # cs) = (c # u) @ ''};'' @ v" using True by simp
      with Cons.prems show False by blast
    qed
    then have IH: "rx closeTail cs = None" by (rule Cons.IH)
    have "\<not> (c = CHR ''}'' \<and> (\<exists>cs'. cs = CHR '';'' # cs'))"
    proof
      assume "c = CHR ''}'' \<and> (\<exists>cs'. cs = CHR '';'' # cs')"
      then obtain cs' where "c = CHR ''}''" "cs = CHR '';'' # cs'" by blast
      then have "takeWhile dot (c # cs) = [] @ ''};'' @ takeWhile dot cs'"
        by (simp add: dot_def isLineTerminator_def)
      with Cons.prems show False by blast
    qed
    then have "rx [One True (\<lambda>x. x = CHR ''}''), One False (\<lambda>x. x = CHR '';'')] (c # cs)
                 = None"
      by (cases cs) auto
    then show ?thesis using True IH by (simp add: closeTail_def)
  qed
qed

lemma rx_closeTail:
  assumes "\<forall>c\<in>set body. \<not> isLineTerminator c"
    and "\<not> (\<exists>u v. takeWhile dot rest = u @ ''};'' @ v)"
  shows "rx closeTail (body @ ''};'' @ rest) = Some (body @ ''}'')"
  using assms(1)
proof (induction body)
  case Nil
  have "rx closeTail rest = None" using assms(2) by (rule rx_closeTail_None)
  then have "rx closeTail (CHR '';'' # rest) = None"
    by (simp add: closeTail_def dot_def isLineTerminator_def)
  then show ?case by (simp add: closeTail_def dot_def isLineTerminator_def keep_def)
next
  case (Cons b bs)
  then have "rx closeTail (bs @ ''};'' @ rest) = Some (bs @ ''}'')" and "dot b"
    by (simp_all add: dot_def)
  then show ?case by (simp add: closeTail_def keep_def)
qed

lemma regexMatch_skip:
  "\<forall>i<length pre. rx p (drop i (pre @ s)) = None \<Longrightarrow>
     regexMatch p (pre @ s) = regexMatch p s"
proof (induction pre)
  case Nil
  then show ?case by simp
next
  case (Cons a pre)
  from Cons.prems have "rx p (drop 0 ((a # pre) @ s)) = None" by blast
  then have here: "rx p (a # pre @ s) = None" by simp
  have "\<forall>i<length pre. rx p (drop i (pre @ s)) = None"
  proof (intro allI impI)
    fix i assume "i < length pre"
    then have "Suc i < length (a # pre)" by simp
    with Cons.prems have "rx p (drop (Suc i) ((a # pre) @ s)) = None" by blast
    then show "rx p (drop i (pre @ s)) = None" by simp
  qed
  then have "regexMatch p (pre @ s) = regexMatch p s" by (rule Cons.IH)
  then show ?case using here by simp
qed

lemma regexMatch_here: "rx p s = Some m \<Longrightarrow> regexMatch p s = Some m"
  by (cases s) simp_all

lemma preloadPattern_match:
  assumes "\<forall>c\<in>set (ws1 @ ws2). isWhiteSpace c"
    and "\<forall>c\<in>set body. \<not> isLineTerminator c"
    and "\<not> (\<exists>u v. takeWhile dot rest = u @ ''};'' @ v)"
  shows "rx preloadPattern
           (''window.preloadData'' @ ws1 @ ''='' @ ws2 @ ''{'' @ body @ ''};'' @ rest)
         = Some (''{'' @ body @ ''}'')"
proof -
  have ws: "\<not> isWhiteSpace (CHR ''='')" "\<not> isWhiteSpace (CHR ''{'')"
    by (simp_all add: isWhiteSpace_def)
  have 1: "\<forall>c\<in>set ws1. isWhiteSpace c \<and> \<not> c = CHR ''=''"
    and 2: "\<forall>c\<in>set ws2. isWhiteSpace c \<and> \<not> c = CHR ''{''"
    using assms(1) ws by auto
  have "rx preloadPattern
          (''window.preloadData'' @ ws1 @ ''='' @ ws2 @ ''{'' @ body @ ''};'' @ rest)
      = rx (Star False isWhiteSpace # One False (\<lambda>x. x = CHR ''='') #
            Star False isWhiteSpace # One True (\<lambda>x. x = CHR ''{'') # closeTail)
          (ws1 @ CHR ''='' # ws2 @ CHR ''{'' # body @ ''};'' @ rest)"
    unfolding preloadPattern_def closeTail_def
    using rx_literal[of "''window.preloadData''"] by simp
  also have "\<dots> = rx (One False (\<lambda>x. x = CHR ''='') #
            Star False isWhiteSpace # One True (\<lambda>x. x = CHR ''{'') # closeTail)
          (CHR ''='' # ws2 @ CHR ''{'' # body @ ''};'' @ rest)"
    using 1 ws(1) by (intro rx_star_skip) simp_all
  also have "\<dots> = rx (Star False isWhiteSpace # One True (\<lambda>x. x = CHR ''{'') # closeTail)
          (ws2 @ CHR ''{'' # body @ ''};'' @ rest)"
    by (simp add: keep_False)
  also have "\<dots> = rx (One True (\<lambda>x. x = CHR ''{'') # closeTail)
          (CHR ''{'' # body @ ''};'' @ rest)"
    using 2 ws(2) by (intro rx_star_skip) simp_all
  also have "\<dots> = Some (''{'' @ body @ ''}'')"
    using rx_closeTail[OF assms(2,3)] by (simp add: keep_def)
  finally show ?thesis .
qed

lemma all_less_list_all: "(\<forall>i<n. P i) \<longleftrightarrow> list_all P [0..<n]"
  by (auto simp: list_all_iff)

lemma locate_spec_example:
  \<open>locatePreloadScript \<lparr> preloadDataText = [],
       preloadScriptText = ''window.preloadData = {"config":{"theme":"dark"}};'' \<rparr>
     = ''{"config":{"theme":"dark"}}''\<close>
  by (simp add: locatePreloadScript_def preloadPattern_def isWhiteSpace_def dot_def
        isLineTerminator_def keep_def)

text \<open>
  Claim C1, as amended. For every document whose element \<^verbatim>\<open>#preload-data\<close> yields no
  text but white space and whose script text holds an assignment to
  \<^verbatim>\<open>window.preloadData\<close>, the text located is the group of the pattern
  \<^verbatim>\<open>/window\.preloadData\s*=\s*({.*});/\<close> at its leftmost match: when the pattern matches
  at no earlier position, the text between the braces has no line terminator and the
  rest of the line after the closing \<^verbatim>\<open>};\<close> holds no further \<^verbatim>\<open>};\<close>, the text located
  runs from the opening brace of the right-hand side to that closing brace, braces
  inside included, and it is the text handed to the parser, whose value
  \<^verbatim>\<open>getPreloadData\<close> returns.
\<close>

theorem locatePreloadScript_greedy_capture:
  assumes "preloadDataText doc = [] \<or> trim (preloadDataText doc) = []"
    and "preloadScriptText doc =
           pre @ ''window.preloadData'' @ ws1 @ ''='' @ ws2 @ ''{'' @ body @ ''};'' @ rest"
    and "\<forall>i<length pre. rx preloadPattern (drop i (preloadScriptText doc)) = None"
    and "\<forall>c\<in>set (ws1 @ ws2). isWhiteSpace c"
    and "\<forall>c\<in>set body. \<not> isLineTerminator c"
    and "\<not> (\<exists>u v. takeWhile dot rest = u @ ''};'' @ v)"
  shows "locatePreloadScript doc = ''{'' @ body @ ''}'' \<and>
         (parse (''{'' @ body @ ''}'') = Inr result \<longrightarrow>
            getPreloadData parse
              (Inr \<lparr> resp_ok = True, resp_status = code, resp_statusText = reason,
                     resp_text = Inr doc \<rparr>) = Inr result)"
proof -
  let ?s = "''window.preloadData'' @ ws1 @ ''='' @ ws2 @ ''{'' @ body @ ''};'' @ rest"
  have here: "rx preloadPattern ?s = Some (''{'' @ body @ ''}'')"
    using assms(4,5,6) by (rule preloadPattern_match)
  have "regexMatch preloadPattern (pre @ ?s) = regexMatch preloadPattern ?s"
    using assms(3) unfolding assms(2) by (rule regexMatch_skip)
  also have "\<dots> = Some (''{'' @ body @ ''}'')"
    using here by (rule regexMatch_here)
  finally have m: "regexMatch preloadPattern (preloadScriptText doc) = Some (''{'' @ body @ ''}'')"
    by (simp add: assms(2))
  have ne: "preloadScriptText doc \<noteq> []" by (simp add: assms(2))
  have loc: "locatePreloadScript doc = ''{'' @ body @ ''}''"
    using assms(1) m ne by (auto simp: locatePreloadScript_def Let_def)
  have nb: "trim (''{'' @ body @ ''}'') \<noteq> []"
    by (simp add: trim_def isWhiteSpace_def)
  have "parse (''{'' @ body @ ''}'') = Inr result \<longrightarrow>
          getPreloadData parse
            (Inr \<lparr> resp_ok = True, resp_status = code, resp_statusText = reason,
                   resp_text = Inr doc \<rparr>) = Inr result"
    using loc nb by (simp add: getPreloadData_def getPreloadData_try_def Let_def)
  with loc show ?thesis by simp
qed

theorem locatePreloadScript_greedy_capture_witness:
  \<open>locatePreloadScript \<lparr> preloadDataText = ''  '',
       preloadScriptText =
         ''var a = 1; window.preloadData = {"config":{"theme":"dark"}};'' @ [CHR 0x0A] @
         ''init({});'' \<rparr>
     = ''{"config":{"theme":"dark"}}''\<close>
proof -
  let ?doc = \<open>\<lparr> preloadDataText = ''  '',
       preloadScriptText =
         ''var a = 1; window.preloadData = {"config":{"theme":"dark"}};'' @ [CHR 0x0A] @
         ''init({});'' \<rparr>\<close>
  have h1: "preloadDataText ?doc = [] \<or> trim (preloadDataText ?doc) = []"
    by (simp add: trim_def isWhiteSpace_def)
  have h2: \<open>preloadScriptText ?doc =
      ''var a = 1; '' @ ''window.preloadData'' @ '' '' @ ''='' @ '' '' @ ''{'' @
      ''"config":{"theme":"dark"}'' @ ''};'' @ (CHR 0x0A # ''init({});'')\<close>
    by simp
  have h3: "\<forall>i<length ''var a = 1; ''. rx preloadPattern (drop i (preloadScriptText ?doc)) = None"
    unfolding all_less_list_all by (simp add: preloadPattern_def)
  have h4: "\<forall>c\<in>set ('' '' @ '' ''). isWhiteSpace c"
    by (simp add: isWhiteSpace_def)
  have h5: \<open>\<forall>c\<in>set ''"config":{"theme":"dark"}''. \<not> isLineTerminator c\<close>
    by (simp add: isLineTerminator_def)
  have h6: "\<not> (\<exists>u v. takeWhile dot (CHR 0x0A # ''init({});'') = u @ ''};'' @ v)"
    by (simp add: dot_def isLineTerminator_def)
  from locatePreloadScript_greedy_capture[OF h1 h2 h3 h4 h5 h6, THEN conjunct1]
  show ?thesis by simp
qed

text \<open>
  The claim as the specification states it fails: the pattern is greedy and does not
  balance braces. When a second statement with \<^verbatim>\<open>};\<close> follows on the same line, the text
  located runs to the last \<^verbatim>\<open>};\<close> of the line, while the balanced object literal of the
  assignment ends at the first closing brace.
\<close>

theorem locatePreloadScript_not_balanced:
  \<open>locatePreloadScript \<lparr> preloadDataText = [],
       preloadScriptText = ''window.preloadData = {"a":1};var x={};'' \<rparr>
     = ''{"a":1};var x={}'' \<and>
   spec_balancedLiteral ''window.preloadData = {"a":1};var x={};'' = Some ''{"a":1}'' \<and>
   Some (locatePreloadScript \<lparr> preloadDataText = [],
       preloadScriptText = ''window.preloadData = {"a":1};var x={};'' \<rparr>)
     \<noteq> spec_balancedLiteral ''window.preloadData = {"a":1};var x={};''\<close>
  by (simp add: locatePreloadScript_def preloadPattern_def isWhiteSpace_def dot_def
        isLineTerminator_def keep_def spec_balancedLiteral_def)

text \<open>
  Claim C8. \<^verbatim>\<open>getPreloadData\<close> returns no default when the fetch or the locator fails:
  for every response whose flag \<^verbatim>\<open>ok\<close> is false it raises a \<^verbatim>\<open>ConfigError\<close> whose message
  carries the status and the status text; for every document in which the element
  \<^verbatim>\<open>#preload-data\<close> yields no text but white space and the pattern finds nothing in
  the script text, it raises the \<^verbatim>\<open>ConfigError\<close> \<^verbatim>\<open>Preload script tag not found or empty\<close>;
  and when the fetch itself fails it raises a \<^verbatim>\<open>ConfigError\<close> as well.
\<close>

theorem getPreloadData_propagates:
  "(\<not> resp_ok r \<longrightarrow>
      getPreloadData parse (Inr r) =
        Inl (ConfigError (''Failed to get HTML: '' @ string_of_nat (resp_status r) @ '' '' @
               resp_statusText r))) \<and>
   (resp_ok r \<and> resp_text r = Inr doc \<and>
    (preloadDataText doc = [] \<or> trim (preloadDataText doc) = []) \<and>
    (preloadScriptText doc = [] \<or>
     regexMatch preloadPattern (preloadScriptText doc) = None) \<longrightarrow>
      getPreloadData parse (Inr r) =
        Inl (ConfigError ''Preload script tag not found or empty'')) \<and>
   (\<exists>m. getPreloadData parse (Inl e) = Inl (ConfigError m))"
proof (intro conjI impI)
  assume "\<not> resp_ok r"
  then show "getPreloadData parse (Inr r) =
        Inl (ConfigError (''Failed to get HTML: '' @ string_of_nat (resp_status r) @ '' '' @
               resp_statusText r))"
    by (simp add: getPreloadData_def getPreloadData_try_def)
next
  assume a: "resp_ok r \<and> resp_text r = Inr doc \<and>
    (preloadDataText doc = [] \<or> trim (preloadDataText doc) = []) \<and>
    (preloadScriptText doc = [] \<or>
     regexMatch preloadPattern (preloadScriptText doc) = None)"
  then have "locatePreloadScript doc = preloadDataText doc"
    by (auto simp: locatePreloadScript_def Let_def)
  with a show "getPreloadData parse (Inr r) =
        Inl (ConfigError ''Preload script tag not found or empty'')"
    by (auto simp: getPreloadData_def getPreloadData_try_def Let_def)
next
  show "\<exists>m. getPreloadData parse (Inl e) = Inl (ConfigError m)"
    by (cases e) (simp_all add: getPreloadData_def getPreloadData_try_def)
qed

theorem getPreloadData_propagates_witness:
  "getPreloadData (\<lambda>s. Inr s)
     (Inr \<lparr> resp_ok = False, resp_status = 404, resp_statusText = ''Not Found'',
            resp_text = Inr \<lparr> preloadDataText = ''{}'', preloadScriptText = [] \<rparr> \<rparr>)
     = Inl (ConfigError ''Failed to get HTML: 404 Not Found'') \<and>
   getPreloadData (\<lambda>s. Inr s)
     (Inr \<lparr> resp_ok = True, resp_status = 200, resp_statusText = ''OK'',
            resp_text = Inr \<lparr> preloadDataText = '' '',
                                preloadScriptText = ''window.preloadData = 1;'' \<rparr> \<rparr>)
     = Inl (ConfigError ''Preload script tag not found or empty'')"
proof -
  let ?r1 = "\<lparr> resp_ok = False, resp_status = 404, resp_statusText = ''Not Found'',
            resp_text = Inr \<lparr> preloadDataText = ''{}'', preloadScriptText = [] \<rparr> \<rparr>"
  let ?doc = "\<lparr> preloadDataText = '' '', preloadScriptText = ''window.preloadData = 1;'' \<rparr>"
  let ?r2 = "\<lparr> resp_ok = True, resp_status = 200, resp_statusText = ''OK'',
            resp_text = Inr ?doc \<rparr>"
  have n: "string_of_nat 404 = ''404''"
    by (simp add: string_of_nat.simps)
  have h1: "\<not> resp_ok ?r1" by simp
  have first: "getPreloadData (\<lambda>s. Inr s) (Inr ?r1)
                 = Inl (ConfigError ''Failed to get HTML: 404 Not Found'')"
    using getPreloadData_propagates[where r = ?r1 and parse = "\<lambda>s. Inr s",
        THEN conjunct1, THEN mp, OF h1] n
    by simp
  have h2: "resp_ok ?r2 \<and> resp_text ?r2 = Inr ?doc \<and>
    (preloadDataText ?doc = [] \<or> trim (preloadDataText ?doc) = []) \<and>
    (preloadScriptText ?doc = [] \<or>
     regexMatch preloadPattern (preloadScriptText ?doc) = None)"
    by (simp add: trim_def isWhiteSpace_def preloadPattern_def)
  have second: "getPreloadData (\<lambda>s. Inr s) (Inr ?r2)
                  = Inl (ConfigError ''Preload script tag not found or empty'')"
    using getPreloadData_propagates[where r = ?r2 and doc = ?doc and parse = "\<lambda>s. Inr s",
        THEN conjunct2, THEN conjunct1, THEN mp, OF h2] .
  from first second show ?thesis by simp
qed


section \<open>Idempotence of the sanitizer\<close>

lemma white_facts:
  "isWhiteSpace c \<Longrightarrow>
     c \<noteq> CHR ''/'' \<and> c \<noteq> CHR 0x22 \<and> c \<noteq> CHR 0x27 \<and> \<not> isIdent c \<and> c \<noteq> CHR '','' \<and>
     c \<noteq> CHR '':'' \<and> c \<noteq> CHR ''}'' \<and> c \<noteq> CHR '']'' \<and> c \<noteq> CHR ''*''"
  by (auto simp: isWhiteSpace_def isIdent_def)

lemma ident_facts:
  "isIdent c \<Longrightarrow>
     \<not> isWhiteSpace c \<and> c \<noteq> CHR ''/'' \<and> c \<noteq> CHR 0x22 \<and> c \<noteq> CHR 0x27 \<and> c \<noteq> CHR '','' \<and>
     c \<noteq> CHR '':'' \<and> c \<noteq> CHR ''}'' \<and> c \<noteq> CHR '']'' \<and> c \<noteq> CHR ''*'' \<and> c \<noteq> CHR 0x5C"
  by (auto simp: isWhiteSpace_def isIdent_def)

lemma char_facts:
  "\<not> isWhiteSpace (CHR ''/'')" "\<not> isWhiteSpace (CHR 0x22)" "\<not> isWhiteSpace (CHR 0x27)"
  "\<not> isWhiteSpace (CHR '','')" "\<not> isWhiteSpace (CHR '':'')" "\<not> isWhiteSpace (CHR ''}'')"
  "\<not> isWhiteSpace (CHR '']'')" "\<not> isWhiteSpace (CHR ''*'')" "isWhiteSpace (CHR '' '')"
  "\<not> isIdent (CHR ''/'')" "\<not> isIdent (CHR 0x22)" "\<not> isIdent (CHR 0x27)"
  "\<not> isIdent (CHR '','')" "\<not> isIdent (CHR '':'')" "\<not> isIdent (CHR ''}'')"
  "\<not> isIdent (CHR '']'')" "\<not> isIdent (CHR ''*'')" "\<not> isIdent (CHR '' '')"
  "isIdent (CHR ''n'')"
  by (simp_all add: isWhiteSpace_def isIdent_def)

lemma lineTerminator_white: "isLineTerminator c \<Longrightarrow> isWhiteSpace c"
  by (auto simp: isLineTerminator_def isWhiteSpace_def)

lemma take1_eq: "take 1 s = [d] \<longleftrightarrow> (\<exists>t. s = d # t)"
  by (cases s) auto

lemma skipI_white: "isWhiteSpace c \<Longrightarrow> skipI cm (c # cs) = skipI cm cs"
  by simp

lemma skipI_comma: "skipI True (CHR '','' # cs) = skipI True cs"
  by simp

lemma skipI_line:
  "take 1 cs = ''/'' \<Longrightarrow> skipI cm (CHR ''/'' # cs) = skipI cm (lineTail (tl cs))"
  by (simp add: isWhiteSpace_def)

lemma skipI_block:
  "take 1 cs = ''*'' \<Longrightarrow> skipI cm (CHR ''/'' # cs) = skipI cm (blockTail (tl cs))"
  by (simp add: isWhiteSpace_def)

lemma skipI_stop:
  "\<not> isWhiteSpace c \<Longrightarrow> \<not> (cm \<and> c = CHR '','') \<Longrightarrow>
   \<not> (c = CHR ''/'' \<and> (take 1 cs = ''/'' \<or> take 1 cs = ''*'')) \<Longrightarrow>
   skipI cm (c # cs) = c # cs"
  by auto

lemma skipI_result:
  "skipI cm s = d # t \<Longrightarrow>
     \<not> isWhiteSpace d \<and> \<not> (cm \<and> d = CHR '','') \<and>
     \<not> (d = CHR ''/'' \<and> (take 1 t = ''/'' \<or> take 1 t = ''*''))"
proof (induction cm s rule: skipI.induct)
  case (1 cm)
  then show ?case by simp
next
  case (2 cm c cs)
  consider (skip) "isWhiteSpace c \<or> (cm \<and> c = CHR '','')"
    | (line) "\<not> (isWhiteSpace c \<or> (cm \<and> c = CHR '',''))" "c = CHR ''/'' \<and> take 1 cs = ''/''"
    | (block) "\<not> (isWhiteSpace c \<or> (cm \<and> c = CHR '',''))"
        "\<not> (c = CHR ''/'' \<and> take 1 cs = ''/'')" "c = CHR ''/'' \<and> take 1 cs = ''*''"
    | (stop) "\<not> (isWhiteSpace c \<or> (cm \<and> c = CHR '',''))"
        "\<not> (c = CHR ''/'' \<and> take 1 cs = ''/'')" "\<not> (c = CHR ''/'' \<and> take 1 cs = ''*'')"
    by blast
  then show ?case
  proof cases
    case skip
    then show ?thesis using "2.IH"(1) "2.prems" by auto
  next
    case line
    then show ?thesis using "2.IH"(2) "2.prems" by auto
  next
    case block
    then show ?thesis using "2.IH"(3) "2.prems" by auto
  next
    case stop
    then show ?thesis using "2.prems" by auto
  qed
qed

declare skipI.simps [simp del]
declare sanitizeJsonString.simps(2) [simp del]

lemma sanitize_token:
  "s \<noteq> [] \<Longrightarrow> sanitizeJsonString s = fst (tokenAt s) @ sanitizeJsonString (snd (tokenAt s))"
  by (cases s) (simp_all add: sanitizeJsonString.simps(2))

text \<open>The tokens, one case for each.\<close>

lemma tokenAt_white: "isWhiteSpace c \<Longrightarrow> tokenAt (c # cs) = ([c], cs)"
  by (simp add: tokenAt_def)

lemma tokenAt_line:
  "take 1 cs = ''/'' \<Longrightarrow> tokenAt (CHR ''/'' # cs) = ([], lineTail (tl cs))"
  by (simp add: tokenAt_def isWhiteSpace_def)

lemma tokenAt_block:
  "take 1 cs = ''*'' \<Longrightarrow> tokenAt (CHR ''/'' # cs) = ('' '', blockTail (tl cs))"
  by (simp add: tokenAt_def isWhiteSpace_def)

lemma tokenAt_dstr:
  "tokenAt (CHR 0x22 # cs) = (CHR 0x22 # fst (dstr cs), snd (dstr cs))"
  by (simp add: tokenAt_def isWhiteSpace_def)

lemma tokenAt_sstr:
  "tokenAt (CHR 0x27 # cs) = (CHR 0x22 # fst (sstr cs), snd (sstr cs))"
  by (simp add: tokenAt_def isWhiteSpace_def)

lemma tokenAt_word: "isIdent c \<Longrightarrow> tokenAt (c # cs) = wordAt (c # cs)"
  using ident_facts[of c] by (simp add: tokenAt_def)

lemma tokenAt_comma_drop:
  "take 1 (skipI True cs) = ''}'' \<or> take 1 (skipI True cs) = '']'' \<Longrightarrow>
     tokenAt (CHR '','' # cs) = ([], skipI True cs)"
  by (auto simp: tokenAt_def isWhiteSpace_def isIdent_def Let_def)

lemma tokenAt_comma_keep:
  "\<not> (take 1 (skipI True cs) = ''}'' \<or> take 1 (skipI True cs) = '']'') \<Longrightarrow>
     tokenAt (CHR '','' # cs) = ('','', cs)"
  by (auto simp: tokenAt_def isWhiteSpace_def isIdent_def Let_def)

lemma tokenAt_other:
  "\<not> isWhiteSpace c \<Longrightarrow> c \<noteq> CHR 0x22 \<Longrightarrow> c \<noteq> CHR 0x27 \<Longrightarrow> \<not> isIdent c \<Longrightarrow>
   c \<noteq> CHR '','' \<Longrightarrow> \<not> (c = CHR ''/'' \<and> (take 1 cs = ''/'' \<or> take 1 cs = ''*'')) \<Longrightarrow>
   tokenAt (c # cs) = ([c], cs)"
  by (auto simp: tokenAt_def)

lemma token_cases [case_names White Line Block DStr SStr Word CommaDrop CommaKeep Other]:
  assumes "isWhiteSpace c \<Longrightarrow> P"
    and "c = CHR ''/'' \<Longrightarrow> take 1 cs = ''/'' \<Longrightarrow> P"
    and "c = CHR ''/'' \<Longrightarrow> take 1 cs = ''*'' \<Longrightarrow> P"
    and "c = CHR 0x22 \<Longrightarrow> P"
    and "c = CHR 0x27 \<Longrightarrow> P"
    and "isIdent c \<Longrightarrow> P"
    and "c = CHR '','' \<Longrightarrow>
           take 1 (skipI True cs) = ''}'' \<or> take 1 (skipI True cs) = '']'' \<Longrightarrow> P"
    and "c = CHR '','' \<Longrightarrow>
           \<not> (take 1 (skipI True cs) = ''}'' \<or> take 1 (skipI True cs) = '']'') \<Longrightarrow> P"
    and "\<not> isWhiteSpace c \<Longrightarrow> c \<noteq> CHR 0x22 \<Longrightarrow> c \<noteq> CHR 0x27 \<Longrightarrow> \<not> isIdent c \<Longrightarrow>
         c \<noteq> CHR '','' \<Longrightarrow>
         \<not> (c = CHR ''/'' \<and> (take 1 cs = ''/'' \<or> take 1 cs = ''*'')) \<Longrightarrow> P"
  shows P
  using assms by blast

text \<open>The words, one case for each.\<close>

lemma wordAt_cases [consumes 1, case_names Key LiteralD LiteralS Null Plain]:
  assumes "isIdent c"
    and "take 1 (skipI False (dropWhile isIdent (c # cs))) = '':'' \<Longrightarrow>
           wordAt (c # cs) =
             (CHR 0x22 # takeWhile isIdent (c # cs) @ [CHR 0x22], dropWhile isIdent (c # cs)) \<Longrightarrow> P"
    and "\<And>u rest. wordAt (c # cs) = (CHR 0x22 # fst (dstr u), rest) \<Longrightarrow>
           snd (dstr u) \<noteq> [] \<Longrightarrow> P"
    and "\<And>u rest. wordAt (c # cs) = (CHR 0x22 # fst (sstr u), rest) \<Longrightarrow>
           snd (sstr u) \<noteq> [] \<Longrightarrow> P"
    and "\<And>rest. wordAt (c # cs) = (''null'', rest) \<Longrightarrow>
           \<not> (\<exists>d\<in>set (take 1 rest). isIdent d) \<Longrightarrow>
           take 1 (skipI False rest) \<noteq> '':'' \<Longrightarrow> P"
    and "take 1 (skipI False (dropWhile isIdent (c # cs))) \<noteq> '':'' \<Longrightarrow>
         takeWhile isIdent (c # cs) \<noteq> ''new'' \<Longrightarrow>
         takeWhile isIdent (c # cs) \<noteq> ''undefined'' \<Longrightarrow>
         takeWhile isIdent (c # cs) \<noteq> ''NaN'' \<Longrightarrow>
         wordAt (c # cs) = (takeWhile isIdent (c # cs), dropWhile isIdent (c # cs)) \<Longrightarrow> P"
  shows P
proof -
  define w where "w = takeWhile isIdent (c # cs)"
  define r where "r = dropWhile isIdent (c # cs)"
  have rsafe: "\<not> (\<exists>d\<in>set (take 1 r). isIdent d)"
  proof (cases r)
    case Nil
    then show ?thesis by simp
  next
    case (Cons d t)
    then have "dropWhile isIdent (c # cs) \<noteq> []" by (simp add: r_def)
    from hd_dropWhile[OF this] have "\<not> isIdent (hd r)" by (simp add: r_def)
    with Cons show ?thesis by simp
  qed
  show P
  proof (cases "take 1 (skipI False r) = '':''")
    case True
    then show ?thesis using assms(2) unfolding wordAt_def Let_def r_def by simp
  next
    case notkey: False
    show ?thesis
    proof (cases "w = ''new''")
      case new: True
      show ?thesis
      proof (cases "dateCall r")
        case None
        then have "wordAt (c # cs) = (''null'', r)"
          using notkey new unfolding wordAt_def Let_def r_def w_def by simp
        then show ?thesis using assms(5) rsafe notkey by blast
      next
        case (Some p)
        obtain out rest where p: "p = (out, rest)" by (cases p)
        have wa: "wordAt (c # cs) = (out, rest)"
          using notkey new Some p unfolding wordAt_def Let_def r_def w_def by simp
        define t1 where "t1 = skipI False r"
        define t2 where "t2 = skipI False (dropWhile isIdent t1)"
        define t3 where "t3 = skipI False (tl t2)"
        define lit where "lit = (if take 1 t3 = [CHR 0x22] then dstr (tl t3)
                       else if take 1 t3 = [CHR 0x27] then sstr (tl t3)
                       else ([], []))"
        define t5 where "t5 = skipI False (snd lit)"
        define t6 where "t6 = dropWhile (\<lambda>c. c \<noteq> CHR '')'') (tl t2)"
        from Some[unfolded p] consider
            (lit) "take 1 t5 = '')''" "out = CHR 0x22 # fst lit" "rest = tl t5"
          | (null) "out = ''null''" "rest = tl t6"
              "\<not> (\<exists>c\<in>set (take 1 (tl t6)). isIdent c)" "take 1 (skipI False (tl t6)) \<noteq> '':''"
          unfolding dateCall_def Let_def t1_def[symmetric] t2_def[symmetric] t3_def[symmetric]
            lit_def[symmetric] t5_def[symmetric] t6_def[symmetric]
          by (auto split: if_splits)
        then show ?thesis
        proof cases
          case lit
          from lit(1) have t5: "t5 \<noteq> []" by auto
          have ne: "snd lit \<noteq> []"
          proof
            assume "snd lit = []"
            then have "t5 = []" unfolding t5_def by (simp add: skipI.simps)
            with t5 show False by simp
          qed
          then consider "lit = dstr (tl t3)" | "lit = sstr (tl t3)"
            unfolding lit_def by (auto split: if_splits)
          then show ?thesis
          proof cases
            case 1
            then show ?thesis using assms(3)[of "tl t3" rest] wa lit(2) ne by simp
          next
            case 2
            then show ?thesis using assms(4)[of "tl t3" rest] wa lit(2) ne by simp
          qed
        next
          case null
          then show ?thesis using assms(5)[of rest] wa by simp
        qed
      qed
    next
      case notnew: False
      show ?thesis
      proof (cases "w = ''undefined'' \<or> w = ''NaN''")
        case True
        then have "wordAt (c # cs) = (''null'', r)"
          using notkey notnew unfolding wordAt_def Let_def r_def w_def by auto
        then show ?thesis using assms(5) rsafe notkey by blast
      next
        case False
        then have "wordAt (c # cs) = (w, r)"
          using notkey notnew unfolding wordAt_def Let_def r_def w_def by auto
        then show ?thesis using assms(6) notkey notnew False unfolding r_def w_def by blast
      qed
    qed
  qed
qed

text \<open>A string of the first pass is a string of the second pass, unchanged.\<close>

lemma dstr_Cons:
  "dstr (c # cs) =
     (if c = CHR 0x22 then ([c], cs)
      else if c = CHR 0x5C then
        (case cs of [] \<Rightarrow> ([c], []) | d # ds \<Rightarrow> (c # d # fst (dstr ds), snd (dstr ds)))
      else (c # fst (dstr cs), snd (dstr cs)))"
  by (cases cs) auto

lemma dstr_quote: "dstr (CHR 0x22 # X) = ([CHR 0x22], X)"
  by (simp add: dstr_Cons)

lemma dstr_escape: "dstr (CHR 0x5C # d # X) = (CHR 0x5C # d # fst (dstr X), snd (dstr X))"
  by simp

lemma dstr_char:
  "c \<noteq> CHR 0x22 \<Longrightarrow> c \<noteq> CHR 0x5C \<Longrightarrow> dstr (c # X) = (c # fst (dstr X), snd (dstr X))"
  by (simp add: dstr_Cons)

lemma dstr_backslash_end: "dstr [CHR 0x5C] = ([CHR 0x5C], [])"
  by simp

declare dstr.simps [simp del]

lemma dstr_fst_dstr:
  "snd (dstr u) \<noteq> [] \<or> X = [] \<Longrightarrow> dstr (fst (dstr u) @ X) = (fst (dstr u), X)"
proof (induction u rule: dstr.induct)
  case 1
  then show ?case by (simp add: dstr.simps)
next
  case (2 c)
  then show ?case by (simp add: dstr.simps)
next
  case (3 c d ds)
  show ?case
  proof (cases "c = CHR 0x22")
    case True
    then show ?thesis by (simp add: dstr.simps(3) dstr_quote)
  next
    case nq: False
    show ?thesis
    proof (cases "c = CHR 0x5C")
      case True
      with nq 3 have "dstr (fst (dstr ds) @ X) = (fst (dstr ds), X)"
        by (simp add: dstr.simps(3))
      with nq True show ?thesis by (simp add: dstr.simps(3) dstr_escape)
    next
      case False
      with nq 3 have "dstr (fst (dstr (d # ds)) @ X) = (fst (dstr (d # ds)), X)"
        by (simp add: dstr.simps(3))
      with nq False show ?thesis by (simp add: dstr.simps(3) dstr_char)
    qed
  qed
qed

lemma sstr_Cons:
  "sstr (c # cs) =
     (if c = CHR 0x27 then ([CHR 0x22], cs)
      else if c = CHR 0x22 then (CHR 0x5C # c # fst (sstr cs), snd (sstr cs))
      else if c = CHR 0x5C then
        (case cs of
           [] \<Rightarrow> ([c], [])
         | d # ds \<Rightarrow>
             (if d = CHR 0x27 then d # fst (sstr ds) else c # d # fst (sstr ds), snd (sstr ds)))
      else (c # fst (sstr cs), snd (sstr cs)))"
  by (cases cs) auto

declare sstr.simps [simp del]

lemma dstr_fst_sstr:
  "snd (sstr u) \<noteq> [] \<or> X = [] \<Longrightarrow> dstr (fst (sstr u) @ X) = (fst (sstr u), X)"
proof (induction u rule: sstr.induct)
  case 1
  then show ?case by (simp add: sstr.simps dstr.simps)
next
  case (2 c)
  then show ?case by (simp add: sstr.simps dstr.simps)
next
  case (3 c d ds)
  show ?case
  proof (cases "c = CHR 0x27")
    case True
    then show ?thesis by (simp add: sstr.simps(3) dstr_quote)
  next
    case ns: False
    show ?thesis
    proof (cases "c = CHR 0x22")
      case True
      with ns 3 have "dstr (fst (sstr (d # ds)) @ X) = (fst (sstr (d # ds)), X)"
        by (simp add: sstr.simps(3))
      with ns True show ?thesis by (simp add: sstr.simps(3) dstr_escape)
    next
      case nd: False
      show ?thesis
      proof (cases "c = CHR 0x5C")
        case True
        with ns nd 3 have IH: "dstr (fst (sstr ds) @ X) = (fst (sstr ds), X)"
          by (simp add: sstr.simps(3))
        show ?thesis
        proof (cases "d = CHR 0x27")
          case True
          with ns nd \<open>c = CHR 0x5C\<close> IH show ?thesis
            by (simp add: sstr.simps(3) dstr_char)
        next
          case False
          with ns nd \<open>c = CHR 0x5C\<close> IH show ?thesis
            by (simp add: sstr.simps(3) dstr_escape)
        qed
      next
        case False
        with ns nd 3 have "dstr (fst (sstr (d # ds)) @ X) = (fst (sstr (d # ds)), X)"
          by (simp add: sstr.simps(3))
        with ns nd False show ?thesis by (simp add: sstr.simps(3) dstr_char)
      qed
    qed
  qed
qed

lemma dstr_word:
  "\<forall>c\<in>set w. isIdent c \<Longrightarrow> dstr (w @ CHR 0x22 # X) = (w @ [CHR 0x22], X)"
proof (induction w)
  case Nil
  then show ?case by (simp add: dstr_quote)
next
  case (Cons a w)
  then have "a \<noteq> CHR 0x22" "a \<noteq> CHR 0x5C" using ident_facts[of a] by simp_all
  with Cons show ?case by (simp add: dstr_char)
qed

text \<open>The first character of a sanitized text, in terms of the text.\<close>

lemma lineTail_head: "lineTail s = l # t \<Longrightarrow> isWhiteSpace l"
proof -
  assume a: "lineTail s = l # t"
  then have "dropWhile (\<lambda>c. \<not> isLineTerminator c) s \<noteq> []" by (simp add: lineTail_def)
  from hd_dropWhile[OF this] a have "isLineTerminator l" by (simp add: lineTail_def)
  then show ?thesis by (rule lineTerminator_white)
qed

lemma sanitize_bracket:
  "b = CHR ''}'' \<or> b = CHR '']'' \<Longrightarrow>
     sanitizeJsonString (b # t) = b # sanitizeJsonString t"
proof -
  assume "b = CHR ''}'' \<or> b = CHR '']''"
  then have "tokenAt (b # t) = ([b], t)"
    by (intro tokenAt_other) (auto simp: isWhiteSpace_def isIdent_def)
  then show ?thesis by (simp add: sanitize_token)
qed

lemma sanitize_white:
  "isWhiteSpace c \<Longrightarrow> sanitizeJsonString (c # t) = c # sanitizeJsonString t"
  by (simp add: sanitize_token tokenAt_white)

lemma wordAt_head:
  assumes "isIdent c"
  shows "\<exists>h out. fst (wordAt (c # cs)) = h # out \<and> (h = CHR 0x22 \<or> h = c \<or> isIdent h)"
  using assms
proof (cases rule: wordAt_cases[where c = c and cs = cs])
  case Key
  then show ?thesis by simp
next
  case (LiteralD u rest)
  then show ?thesis by simp
next
  case (LiteralS u rest)
  then show ?thesis by simp
next
  case (Null rest)
  then show ?thesis by (simp add: isIdent_def)
next
  case Plain
  then show ?thesis using assms by simp
qed

lemma sanitize_head:
  assumes "take 1 (sanitizeJsonString r) = [d]"
  shows "take 1 r = [d] \<or> d = CHR 0x22 \<or>
         (isWhiteSpace d \<and>
            (\<exists>cs. r = CHR ''/'' # cs \<and> (take 1 cs = ''/'' \<or> take 1 cs = ''*''))) \<or>
         (isIdent d \<and> (\<exists>d'. take 1 r = [d'] \<and> isIdent d')) \<or>
         ((d = CHR ''}'' \<or> d = CHR '']'') \<and> take 1 r = '','')"
proof (cases r)
  case Nil
  with assms show ?thesis by simp
next
  case (Cons c cs)
  have st: "sanitizeJsonString r = fst (tokenAt (c # cs)) @ sanitizeJsonString (snd (tokenAt (c # cs)))"
    unfolding Cons by (rule sanitize_token) simp
  show ?thesis
  proof (cases rule: token_cases[where c = c and cs = cs])
    case White
    then show ?thesis using assms st Cons by (simp add: tokenAt_white)
  next
    case Line
    then have s: "sanitizeJsonString r = sanitizeJsonString (lineTail (tl cs))"
      using st by (simp add: tokenAt_line)
    show ?thesis
    proof (cases "lineTail (tl cs)")
      case Nil
      with s assms show ?thesis by simp
    next
      case (Cons l t)
      then have w: "isWhiteSpace l" by (rule lineTail_head)
      then have "sanitizeJsonString (lineTail (tl cs)) = l # sanitizeJsonString t"
        unfolding Cons by (rule sanitize_white)
      with s assms w Line \<open>r = c # cs\<close> show ?thesis by simp
    qed
  next
    case Block
    then have "sanitizeJsonString r = CHR '' '' # sanitizeJsonString (blockTail (tl cs))"
      using st by (simp add: tokenAt_block)
    with assms have "d = CHR '' ''" by simp
    then have "isWhiteSpace d" by (simp add: char_facts)
    with Block Cons show ?thesis by simp
  next
    case DStr
    then show ?thesis using assms st by (simp add: tokenAt_dstr)
  next
    case SStr
    then show ?thesis using assms st by (simp add: tokenAt_sstr)
  next
    case Word
    from wordAt_head[OF Word, of cs] obtain h out where
      h: "fst (wordAt (c # cs)) = h # out" "h = CHR 0x22 \<or> h = c \<or> isIdent h" by blast
    then have "d = h" using assms st Word by (simp add: tokenAt_word)
    with h(2) Word Cons show ?thesis by auto
  next
    case CommaDrop
    then have s: "sanitizeJsonString r = sanitizeJsonString (skipI True cs)"
      using st by (simp add: tokenAt_comma_drop)
    from CommaDrop(2) obtain b t where
      t: "skipI True cs = b # t" "b = CHR ''}'' \<or> b = CHR '']''"
      by (cases "skipI True cs") auto
    from sanitize_bracket[OF t(2), of t] s t(1) assms have "d = b" by simp
    with t(2) CommaDrop(1) Cons show ?thesis by simp
  next
    case CommaKeep
    then show ?thesis using assms st Cons by (simp add: tokenAt_comma_keep)
  next
    case Other
    then have "tokenAt (c # cs) = ([c], cs)" by (intro tokenAt_other)
    then show ?thesis using assms st Cons by simp
  qed
qed

lemma sanitize_no_comment_start:
  assumes "take 1 r \<noteq> ''/''" and "take 1 r \<noteq> ''*''"
  shows "take 1 (sanitizeJsonString r) \<noteq> ''/'' \<and> take 1 (sanitizeJsonString r) \<noteq> ''*''"
proof -
  have "take 1 (sanitizeJsonString r) = [d] \<Longrightarrow> d \<noteq> CHR ''/'' \<and> d \<noteq> CHR ''*''" for d
  proof -
    assume "take 1 (sanitizeJsonString r) = [d]"
    from sanitize_head[OF this] consider
        (same) "take 1 r = [d]" | (quote) "d = CHR 0x22" | (white) "isWhiteSpace d"
      | (ident) "isIdent d" | (bracket) "d = CHR ''}'' \<or> d = CHR '']''"
      by blast
    then show ?thesis
    proof cases
      case same
      with assms show ?thesis by auto
    next
      case quote
      then show ?thesis by simp
    next
      case white
      then show ?thesis using white_facts by blast
    next
      case ident
      then show ?thesis using ident_facts by blast
    next
      case bracket
      then show ?thesis by auto
    qed
  qed
  then show ?thesis by blast
qed

lemma sanitize_no_ident_start:
  assumes "\<not> (\<exists>d\<in>set (take 1 r). isIdent d)"
  shows "\<not> (\<exists>d\<in>set (take 1 (sanitizeJsonString r)). isIdent d)"
proof
  assume "\<exists>d\<in>set (take 1 (sanitizeJsonString r)). isIdent d"
  then obtain d where d: "take 1 (sanitizeJsonString r) = [d]" "isIdent d"
    by (cases "sanitizeJsonString r") auto
  from sanitize_head[OF d(1)] consider
      (same) "take 1 r = [d]" | (quote) "d = CHR 0x22" | (white) "isWhiteSpace d"
    | (ident) d' where "take 1 r = [d']" "isIdent d'" | (bracket) "d = CHR ''}'' \<or> d = CHR '']''"
    by blast
  then show False
  proof cases
    case same
    with assms d(2) show ?thesis by simp
  next
    case quote
    with d(2) show ?thesis by (simp add: char_facts)
  next
    case white
    with d(2) show ?thesis using white_facts by blast
  next
    case ident
    with assms show ?thesis by simp
  next
    case bracket
    with d(2) show ?thesis by (auto simp: char_facts)
  qed
qed

text \<open>Looking ahead in a sanitized text is sanitizing what lay ahead.\<close>

lemma skipI_sanitize_significant:
  assumes "\<not> isWhiteSpace c"
    and "\<not> (c = CHR ''/'' \<and> (take 1 cs = ''/'' \<or> take 1 cs = ''*''))"
    and "cm \<Longrightarrow> c = CHR '','' \<Longrightarrow>
           take 1 (skipI True cs) = ''}'' \<or> take 1 (skipI True cs) = '']''"
  shows "skipI cm (sanitizeJsonString (c # cs)) = sanitizeJsonString (c # cs)"
proof (cases "sanitizeJsonString (c # cs)")
  case Nil
  then show ?thesis by (simp add: skipI.simps)
next
  case (Cons d X)
  then have d: "take 1 (sanitizeJsonString (c # cs)) = [d]" by simp
  have st: "sanitizeJsonString (c # cs) =
              fst (tokenAt (c # cs)) @ sanitizeJsonString (snd (tokenAt (c # cs)))"
    by (rule sanitize_token) simp
  from sanitize_head[OF d] assms(2) consider
      (same) "d = c" | (quote) "d = CHR 0x22" | (ident) "isIdent d"
    | (bracket) "d = CHR ''}'' \<or> d = CHR '']''"
    by auto
  then have "\<not> isWhiteSpace d \<and> \<not> (cm \<and> d = CHR '','') \<and>
             \<not> (d = CHR ''/'' \<and> (take 1 X = ''/'' \<or> take 1 X = ''*''))"
  proof cases
    case same
    have nc: "\<not> (cm \<and> d = CHR '','')"
    proof
      assume a: "cm \<and> d = CHR '',''"
      with same have c: "c = CHR '',''" by simp
      with a assms(3) have drop: "take 1 (skipI True cs) = ''}'' \<or> take 1 (skipI True cs) = '']''"
        by blast
      then obtain b t where t: "skipI True cs = b # t" "b = CHR ''}'' \<or> b = CHR '']''"
        by (cases "skipI True cs") auto
      from st c drop have "sanitizeJsonString (c # cs) = sanitizeJsonString (skipI True cs)"
        by (simp add: tokenAt_comma_drop)
      with sanitize_bracket[OF t(2), of t] t(1) Cons have "d = b" by simp
      with t(2) a show False by auto
    qed
    have ns: "\<not> (d = CHR ''/'' \<and> (take 1 X = ''/'' \<or> take 1 X = ''*''))"
    proof
      assume a: "d = CHR ''/'' \<and> (take 1 X = ''/'' \<or> take 1 X = ''*'')"
      with same have c: "c = CHR ''/''" by simp
      with assms(2) have ncs: "take 1 cs \<noteq> ''/''" "take 1 cs \<noteq> ''*''" by simp_all
      have "tokenAt (c # cs) = ([c], cs)"
        using c ncs by (intro tokenAt_other) (simp_all add: char_facts)
      with st Cons have "X = sanitizeJsonString cs" by simp
      with sanitize_no_comment_start[OF ncs] a show False by simp
    qed
    from same assms(1) nc ns show ?thesis by simp
  next
    case quote
    then show ?thesis by (simp add: char_facts)
  next
    case ident
    then show ?thesis using ident_facts[of d] by simp
  next
    case bracket
    then show ?thesis by (auto simp: char_facts)
  qed
  then show ?thesis unfolding Cons by (intro skipI_stop) simp_all
qed

lemma skipI_sanitize: "skipI cm (sanitizeJsonString r) = sanitizeJsonString (skipI cm r)"
proof (induction cm r rule: skipI.induct)
  case (1 cm)
  then show ?case by (simp add: skipI.simps)
next
  case (2 cm c cs)
  show ?case
  proof (cases rule: token_cases[where c = c and cs = cs])
    case White
    then show ?thesis using "2.IH"(1) by (simp add: sanitize_white skipI_white)
  next
    case Line
    have n: "\<not> (isWhiteSpace c \<or> cm \<and> c = CHR '','')"
      using Line(1) by (simp add: char_facts)
    have "sanitizeJsonString (c # cs) = sanitizeJsonString (lineTail (tl cs))"
      using Line by (simp add: sanitize_token tokenAt_line)
    moreover have "skipI cm (c # cs) = skipI cm (lineTail (tl cs))"
      using Line by (simp add: skipI_line)
    ultimately show ?thesis using "2.IH"(2)[OF n] Line by simp
  next
    case Block
    have n: "\<not> (isWhiteSpace c \<or> cm \<and> c = CHR '','')"
      using Block(1) by (simp add: char_facts)
    have n2: "\<not> (c = CHR ''/'' \<and> take 1 cs = ''/'')" using Block(2) by simp
    have "sanitizeJsonString (c # cs) = CHR '' '' # sanitizeJsonString (blockTail (tl cs))"
      using Block by (simp add: sanitize_token tokenAt_block)
    moreover have "skipI cm (c # cs) = skipI cm (blockTail (tl cs))"
      using Block by (simp add: skipI_block)
    moreover have "isWhiteSpace (CHR '' '')" by (simp add: char_facts)
    ultimately show ?thesis using "2.IH"(3)[OF n n2] Block
      by (simp add: skipI_white)
  next
    case DStr
    then have "skipI cm (c # cs) = c # cs"
      by (intro skipI_stop) (simp_all add: char_facts)
    moreover have "skipI cm (sanitizeJsonString (c # cs)) = sanitizeJsonString (c # cs)"
      using DStr by (intro skipI_sanitize_significant) (simp_all add: char_facts)
    ultimately show ?thesis by simp
  next
    case SStr
    then have "skipI cm (c # cs) = c # cs"
      by (intro skipI_stop) (simp_all add: char_facts)
    moreover have "skipI cm (sanitizeJsonString (c # cs)) = sanitizeJsonString (c # cs)"
      using SStr by (intro skipI_sanitize_significant) (simp_all add: char_facts)
    ultimately show ?thesis by simp
  next
    case Word
    then have "skipI cm (c # cs) = c # cs"
      using ident_facts[of c] by (intro skipI_stop) simp_all
    moreover have "skipI cm (sanitizeJsonString (c # cs)) = sanitizeJsonString (c # cs)"
      using Word ident_facts[of c] by (intro skipI_sanitize_significant) simp_all
    ultimately show ?thesis by simp
  next
    case CommaDrop
    show ?thesis
    proof (cases cm)
      case True
      have sk: "skipI cm (c # cs) = skipI True cs"
        using True CommaDrop(1) by (simp add: skipI_comma)
      from CommaDrop(2) obtain b t where
        t: "skipI True cs = b # t" "b = CHR ''}'' \<or> b = CHR '']''"
        by (cases "skipI True cs") auto
      have "skipI cm (sanitizeJsonString (b # t)) = sanitizeJsonString (b # t)"
        using t(2) by (intro skipI_sanitize_significant) (auto simp: char_facts)
      moreover have "sanitizeJsonString (c # cs) = sanitizeJsonString (skipI True cs)"
        using CommaDrop by (simp add: sanitize_token tokenAt_comma_drop)
      ultimately show ?thesis using sk t(1) by simp
    next
      case False
      have "skipI cm (c # cs) = c # cs"
        using False CommaDrop(1) by (intro skipI_stop) (simp_all add: char_facts)
      moreover have "skipI cm (sanitizeJsonString (c # cs)) = sanitizeJsonString (c # cs)"
        using False CommaDrop(1)
        by (intro skipI_sanitize_significant) (simp_all add: char_facts)
      ultimately show ?thesis by simp
    qed
  next
    case CommaKeep
    show ?thesis
    proof (cases cm)
      case True
      have sk: "skipI cm (c # cs) = skipI cm cs"
        using True CommaKeep(1) by (simp add: skipI_comma)
      have "sanitizeJsonString (c # cs) = CHR '','' # sanitizeJsonString cs"
        using CommaKeep by (simp add: sanitize_token tokenAt_comma_keep)
      then have "skipI cm (sanitizeJsonString (c # cs)) = skipI cm (sanitizeJsonString cs)"
        using True by (simp add: skipI_comma)
      then show ?thesis using sk "2.IH"(1) True CommaKeep(1) by simp
    next
      case False
      have "skipI cm (c # cs) = c # cs"
        using False CommaKeep(1) by (intro skipI_stop) (simp_all add: char_facts)
      moreover have "skipI cm (sanitizeJsonString (c # cs)) = sanitizeJsonString (c # cs)"
        using False CommaKeep(1)
        by (intro skipI_sanitize_significant) (simp_all add: char_facts)
      ultimately show ?thesis by simp
    qed
  next
    case Other
    then have "skipI cm (c # cs) = c # cs"
      by (intro skipI_stop) simp_all
    moreover have "skipI cm (sanitizeJsonString (c # cs)) = sanitizeJsonString (c # cs)"
      using Other by (intro skipI_sanitize_significant) simp_all
    ultimately show ?thesis by simp
  qed
qed

lemma sanitize_colon_ahead:
  assumes "take 1 (skipI False (sanitizeJsonString r)) = '':''"
  shows "take 1 (skipI False r) = '':''"
proof -
  from assms have "take 1 (sanitizeJsonString (skipI False r)) = [CHR '':'']"
    by (simp add: skipI_sanitize)
  from sanitize_head[OF this] show ?thesis
    by (auto simp: char_facts)
qed

lemma sanitize_bracket_ahead:
  assumes "take 1 (skipI True (sanitizeJsonString r)) = [b]" and "b = CHR ''}'' \<or> b = CHR '']''"
  shows "take 1 (skipI True r) = [b]"
proof -
  from assms(1) have "take 1 (sanitizeJsonString (skipI True r)) = [b]"
    by (simp add: skipI_sanitize)
  from sanitize_head[OF this] have "take 1 (skipI True r) = [b] \<or> take 1 (skipI True r) = '',''"
    using assms(2) by (auto simp: char_facts)
  moreover have "take 1 (skipI True r) \<noteq> '',''"
  proof
    assume "take 1 (skipI True r) = '',''"
    then obtain t where "skipI True r = CHR '','' # t" by (cases "skipI True r") auto
    from skipI_result[OF this] show False by simp
  qed
  ultimately show ?thesis by simp
qed

text \<open>A word of the first pass is a word of the second pass, unchanged.\<close>

lemma wordAt_unchanged:
  assumes "w \<noteq> []" and "\<forall>c\<in>set w. isIdent c"
    and "\<not> (\<exists>d\<in>set (take 1 X). isIdent d)"
    and "take 1 (skipI False X) \<noteq> '':''"
    and "w \<noteq> ''new''" and "w \<noteq> ''undefined''" and "w \<noteq> ''NaN''"
  shows "tokenAt (w @ X) = (w, X)"
proof -
  obtain c w' where w: "w = c # w'" using assms(1) by (cases w) auto
  have c: "isIdent c" using assms(2) w by simp
  have tw: "takeWhile isIdent (w @ X) = w"
  proof (cases X)
    case Nil
    then show ?thesis using assms(2) by simp
  next
    case (Cons x X')
    then have "\<not> isIdent x" using assms(3) by simp
    then show ?thesis using assms(2) Cons by simp
  qed
  have dw: "dropWhile isIdent (w @ X) = X"
  proof (cases X)
    case Nil
    then show ?thesis using assms(2) by simp
  next
    case (Cons x X')
    then have "\<not> isIdent x" using assms(3) by simp
    then show ?thesis using assms(2) Cons by simp
  qed
  have "wordAt (w @ X) = (w, X)"
    unfolding wordAt_def Let_def tw dw using assms(4,5,6,7) by simp
  then show ?thesis using c w by (simp add: tokenAt_word)
qed

text \<open>
  Running the sanitizer twice gives what running it once gives.
\<close>

lemma sanitize_idempotent_step:
  assumes IH: "sanitizeJsonString (sanitizeJsonString (snd (tokenAt (c # cs)))) =
                 sanitizeJsonString (snd (tokenAt (c # cs)))"
  shows "sanitizeJsonString (sanitizeJsonString (c # cs)) = sanitizeJsonString (c # cs)"
proof -
  define rest where "rest = snd (tokenAt (c # cs))"
  define X where "X = sanitizeJsonString rest"
  have st: "sanitizeJsonString (c # cs) = fst (tokenAt (c # cs)) @ X"
    unfolding X_def rest_def by (rule sanitize_token) simp
  have stable: "sanitizeJsonString X = X" using IH unfolding X_def rest_def .
  have atend: "rest = [] \<Longrightarrow> X = []" unfolding X_def by simp
  show ?thesis
  proof (cases rule: token_cases[where c = c and cs = cs])
    case White
    then show ?thesis using st stable by (simp add: tokenAt_white sanitize_white)
  next
    case Line
    then show ?thesis using st stable by (simp add: tokenAt_line)
  next
    case Block
    have "isWhiteSpace (CHR '' '')" by (simp add: char_facts)
    then show ?thesis using Block st stable by (simp add: tokenAt_block sanitize_white)
  next
    case DStr
    then have t: "tokenAt (c # cs) = (CHR 0x22 # fst (dstr cs), snd (dstr cs))"
      by (simp add: tokenAt_dstr)
    then have r: "rest = snd (dstr cs)" by (simp add: rest_def)
    have "dstr (fst (dstr cs) @ X) = (fst (dstr cs), X)"
      using atend r by (intro dstr_fst_dstr) auto
    then have "tokenAt (CHR 0x22 # fst (dstr cs) @ X) = (CHR 0x22 # fst (dstr cs), X)"
      by (simp add: tokenAt_dstr)
    then have "sanitizeJsonString (CHR 0x22 # fst (dstr cs) @ X) = CHR 0x22 # fst (dstr cs) @ X"
      using stable by (simp add: sanitize_token)
    then show ?thesis using st t by simp
  next
    case SStr
    then have t: "tokenAt (c # cs) = (CHR 0x22 # fst (sstr cs), snd (sstr cs))"
      by (simp add: tokenAt_sstr)
    then have r: "rest = snd (sstr cs)" by (simp add: rest_def)
    have "dstr (fst (sstr cs) @ X) = (fst (sstr cs), X)"
      using atend r by (intro dstr_fst_sstr) auto
    then have "tokenAt (CHR 0x22 # fst (sstr cs) @ X) = (CHR 0x22 # fst (sstr cs), X)"
      by (simp add: tokenAt_dstr)
    then have "sanitizeJsonString (CHR 0x22 # fst (sstr cs) @ X) = CHR 0x22 # fst (sstr cs) @ X"
      using stable by (simp add: sanitize_token)
    then show ?thesis using st t by simp
  next
    case Word
    have tw: "tokenAt (c # cs) = wordAt (c # cs)" using Word by (rule tokenAt_word)
    from Word show ?thesis
    proof (cases rule: wordAt_cases[where c = c and cs = cs])
      case Key
      define w where "w = takeWhile isIdent (c # cs)"
      have wi: "\<forall>c\<in>set w. isIdent c" unfolding w_def by (auto dest: set_takeWhileD)
      have out: "fst (tokenAt (c # cs)) = CHR 0x22 # w @ [CHR 0x22]"
        using Key(2) tw by (simp add: w_def)
      have "tokenAt (CHR 0x22 # w @ CHR 0x22 # X) = (CHR 0x22 # w @ [CHR 0x22], X)"
        using dstr_word[OF wi, of X] by (simp add: tokenAt_dstr)
      then have "sanitizeJsonString (CHR 0x22 # w @ CHR 0x22 # X) = CHR 0x22 # w @ CHR 0x22 # X"
        using stable by (simp add: sanitize_token)
      then show ?thesis using st out by simp
    next
      case (LiteralD u rest')
      have out: "fst (tokenAt (c # cs)) = CHR 0x22 # fst (dstr u)"
        using LiteralD(1) tw by simp
      have "dstr (fst (dstr u) @ X) = (fst (dstr u), X)"
        using LiteralD(2) by (intro dstr_fst_dstr) simp
      then have "tokenAt (CHR 0x22 # fst (dstr u) @ X) = (CHR 0x22 # fst (dstr u), X)"
        by (simp add: tokenAt_dstr)
      then have "sanitizeJsonString (CHR 0x22 # fst (dstr u) @ X) = CHR 0x22 # fst (dstr u) @ X"
        using stable by (simp add: sanitize_token)
      then show ?thesis using st out by simp
    next
      case (LiteralS u rest')
      have out: "fst (tokenAt (c # cs)) = CHR 0x22 # fst (sstr u)"
        using LiteralS(1) tw by simp
      have "dstr (fst (sstr u) @ X) = (fst (sstr u), X)"
        using LiteralS(2) by (intro dstr_fst_sstr) simp
      then have "tokenAt (CHR 0x22 # fst (sstr u) @ X) = (CHR 0x22 # fst (sstr u), X)"
        by (simp add: tokenAt_dstr)
      then have "sanitizeJsonString (CHR 0x22 # fst (sstr u) @ X) = CHR 0x22 # fst (sstr u) @ X"
        using stable by (simp add: sanitize_token)
      then show ?thesis using st out by simp
    next
      case (Null rest')
      have r: "rest = rest'" using Null(1) tw by (simp add: rest_def)
      have out: "fst (tokenAt (c # cs)) = ''null''" using Null(1) tw by simp
      have safe: "\<not> (\<exists>d\<in>set (take 1 X). isIdent d)"
        unfolding X_def r using Null(2) by (rule sanitize_no_ident_start)
      have nokey: "take 1 (skipI False X) \<noteq> '':''"
        unfolding X_def r using Null(3) sanitize_colon_ahead by blast
      have "tokenAt (''null'' @ X) = (''null'', X)"
        using safe nokey by (intro wordAt_unchanged) (simp_all add: isIdent_def)
      then have "sanitizeJsonString (''null'' @ X) = ''null'' @ X"
        using stable by (simp add: sanitize_token)
      then show ?thesis using st out by simp
    next
      case Plain
      define w where "w = takeWhile isIdent (c # cs)"
      have wi: "\<forall>c\<in>set w. isIdent c" unfolding w_def by (auto dest: set_takeWhileD)
      have wne: "w \<noteq> []" unfolding w_def using Word by simp
      have r: "rest = dropWhile isIdent (c # cs)" using Plain(5) tw by (simp add: rest_def)
      have out: "fst (tokenAt (c # cs)) = w" using Plain(5) tw by (simp add: w_def)
      have rsafe: "\<not> (\<exists>d\<in>set (take 1 rest). isIdent d)"
      proof (cases rest)
        case Nil
        then show ?thesis by simp
      next
        case (Cons d t)
        then have "dropWhile isIdent (c # cs) \<noteq> []" using r by simp
        from hd_dropWhile[OF this] have "\<not> isIdent (hd rest)" using r by simp
        with Cons show ?thesis by simp
      qed
      have safe: "\<not> (\<exists>d\<in>set (take 1 X). isIdent d)"
        unfolding X_def using rsafe by (rule sanitize_no_ident_start)
      have nokey: "take 1 (skipI False X) \<noteq> '':''"
        unfolding X_def r using Plain(1) sanitize_colon_ahead by blast
      have "tokenAt (w @ X) = (w, X)"
        using wne wi safe nokey Plain(2,3,4) unfolding w_def[symmetric]
        by (intro wordAt_unchanged)
      then have "sanitizeJsonString (w @ X) = w @ X"
        using stable wne by (simp add: sanitize_token)
      then show ?thesis using st out by simp
    qed
  next
    case CommaDrop
    then show ?thesis using st stable by (simp add: tokenAt_comma_drop)
  next
    case CommaKeep
    then have t: "tokenAt (c # cs) = ('','', cs)" by (simp add: tokenAt_comma_keep)
    then have r: "rest = cs" by (simp add: rest_def)
    have "\<not> (take 1 (skipI True X) = ''}'' \<or> take 1 (skipI True X) = '']'')"
    proof
      assume "take 1 (skipI True X) = ''}'' \<or> take 1 (skipI True X) = '']''"
      then have "take 1 (skipI True cs) = ''}'' \<or> take 1 (skipI True cs) = '']''"
        unfolding X_def r using sanitize_bracket_ahead[of cs] by blast
      with CommaKeep(2) show False by simp
    qed
    then have "tokenAt (CHR '','' # X) = ('','', X)" by (rule tokenAt_comma_keep)
    then have "sanitizeJsonString (CHR '','' # X) = CHR '','' # X"
      using stable by (simp add: sanitize_token)
    then show ?thesis using st t by simp
  next
    case Other
    then have t: "tokenAt (c # cs) = ([c], cs)" by (intro tokenAt_other)
    then have r: "rest = cs" by (simp add: rest_def)
    have "\<not> (c = CHR ''/'' \<and> (take 1 X = ''/'' \<or> take 1 X = ''*''))"
    proof
      assume a: "c = CHR ''/'' \<and> (take 1 X = ''/'' \<or> take 1 X = ''*'')"
      with Other(6) have "take 1 cs \<noteq> ''/''" "take 1 cs \<noteq> ''*''" by simp_all
      from sanitize_no_comment_start[OF this] a show False unfolding X_def r by simp
    qed
    with Other have "tokenAt (c # X) = ([c], X)" by (intro tokenAt_other)
    then have "sanitizeJsonString (c # X) = c # X"
      using stable by (simp add: sanitize_token)
    then show ?thesis using st t by simp
  qed
qed

text \<open>The two components of a string token, for evaluation.\<close>

lemma fst_dstr_Cons:
  "fst (dstr (c # cs)) =
     (if c = CHR 0x22 then [c]
      else if c = CHR 0x5C then (case cs of [] \<Rightarrow> [c] | d # ds \<Rightarrow> c # d # fst (dstr ds))
      else c # fst (dstr cs))"
  by (simp add: dstr_Cons split: list.splits)

lemma snd_dstr_Cons:
  "snd (dstr (c # cs)) =
     (if c = CHR 0x22 then cs
      else if c = CHR 0x5C then (case cs of [] \<Rightarrow> [] | d # ds \<Rightarrow> snd (dstr ds))
      else snd (dstr cs))"
  by (simp add: dstr_Cons split: list.splits)

lemma fst_sstr_Cons:
  "fst (sstr (c # cs)) =
     (if c = CHR 0x27 then [CHR 0x22]
      else if c = CHR 0x22 then CHR 0x5C # c # fst (sstr cs)
      else if c = CHR 0x5C then
        (case cs of
           [] \<Rightarrow> [c]
         | d # ds \<Rightarrow> if d = CHR 0x27 then d # fst (sstr ds) else c # d # fst (sstr ds))
      else c # fst (sstr cs))"
  by (simp add: sstr_Cons split: list.splits)

lemma snd_sstr_Cons:
  "snd (sstr (c # cs)) =
     (if c = CHR 0x27 then cs
      else if c = CHR 0x22 then snd (sstr cs)
      else if c = CHR 0x5C then (case cs of [] \<Rightarrow> [] | d # ds \<Rightarrow> snd (sstr ds))
      else snd (sstr cs))"
  by (simp add: sstr_Cons split: list.splits)

lemma string_Nil: "fst (dstr []) = []" "snd (dstr []) = []" "fst (sstr []) = []" "snd (sstr []) = []"
  by (simp_all add: dstr.simps sstr.simps)

lemma sanitize_spec_example:
  \<open>sanitizeJsonString ''{title: 'A "quoted" value', count: 1,}'' =
     ''{"title": "A '' @ [CHR 0x5C] @ ''"quoted'' @ [CHR 0x5C] @ ''" value", "count": 1}''\<close>
  by (simp add: sanitizeJsonString.simps(2) tokenAt_def wordAt_def dateCall_def skipI.simps
        lineTail_def fst_dstr_Cons snd_dstr_Cons fst_sstr_Cons snd_sstr_Cons string_Nil
        isIdent_def isWhiteSpace_def isLineTerminator_def Let_def)

lemma sanitize_literals_example:
  \<open>sanitizeJsonString
       ''{a: undefined, /* c */ b: NaN, d: new Date('2024-01-01T00:00:00Z'), f: [1,2, ], } // x''
     = ''{"a": null,   "b": null, "d": "2024-01-01T00:00:00Z", "f": [1,2]} ''\<close>
  by (simp add: sanitizeJsonString.simps(2) tokenAt_def wordAt_def dateCall_def skipI.simps
        lineTail_def fst_dstr_Cons snd_dstr_Cons fst_sstr_Cons snd_sstr_Cons string_Nil
        isIdent_def isWhiteSpace_def isLineTerminator_def Let_def)


text \<open>
  Claim C3. The sanitizer is idempotent: for every text \<open>x\<close>, sanitizing the sanitized
  text gives the sanitized text.
\<close>

theorem sanitizeJsonString_idempotent:
  "sanitizeJsonString (sanitizeJsonString x) = sanitizeJsonString x"
proof (induction x rule: sanitizeJsonString.induct)
  case 1
  then show ?case by simp
next
  case (2 c cs)
  then show ?case by (rule sanitize_idempotent_step)
qed

theorem sanitizeJsonString_idempotent_witness:
  \<open>sanitizeJsonString (sanitizeJsonString ''{title: 'A "quoted" value', count: 1,}'') =
     ''{"title": "A '' @ [CHR 0x5C] @ ''"quoted'' @ [CHR 0x5C] @ ''" value", "count": 1}''\<close>
  using sanitizeJsonString_idempotent[of \<open>''{title: 'A "quoted" value', count: 1,}''\<close>]
    sanitize_spec_example
  by simp

end
